theory Spec2Isabelle
  imports
    Main
    "HOL-Library.Word"
    "HOL-Library.Multiset"
    "HOL-Library.Log_Nat"
    "HOL-Library.AList"
    "HOL-Library.List_Lexorder"
    "HOL-Library.Char_ord"
    "HOL-Library.Product_Lexorder"
begin

section \<open>Players\<close>

text \<open>
  A Python object is its instance dictionary, in the order the attributes were set. The
  constructors' arguments are whatever values the caller passes.
\<close>

datatype pyval = PyStr string | PyInt int | PyNone

type_synonym pyobj = "(string \<times> pyval) list"

datatype error =
    KeyError "string list"
  | TypeError
  | AttributeError string

text \<open>\<^verbatim>\<open>obj.a = v\<close> and \<^verbatim>\<open>obj.a\<close>; neither class defines class-level data attributes.\<close>

definition setattr :: "pyobj \<Rightarrow> string \<Rightarrow> pyval \<Rightarrow> pyobj" where
  "setattr obj a v = AList.update a v obj"

definition getattr :: "pyobj \<Rightarrow> string \<Rightarrow> error + pyval" where
  "getattr obj a = (case map_of obj a of None \<Rightarrow> Inl (AttributeError a) | Some v \<Rightarrow> Inr v)"

text \<open>\<^verbatim>\<open>Player.__init__(self, name, team, position, goals, penalty_minutes)\<close>\<close>

definition Player_init :: "pyobj \<Rightarrow> pyval \<Rightarrow> pyval \<Rightarrow> pyval \<Rightarrow> pyval \<Rightarrow> pyval \<Rightarrow> pyobj" where
  "Player_init self name team position goals penalty_minutes =
     (let self = setattr self ''name'' name;
          self = setattr self ''team'' team;
          self = setattr self ''position'' position;
          self = setattr self ''goals'' goals;
          self = setattr self ''penalty_minutes'' penalty_minutes
      in self)"

definition Player :: "pyval \<Rightarrow> pyval \<Rightarrow> pyval \<Rightarrow> pyval \<Rightarrow> pyval \<Rightarrow> pyobj" where
  "Player name team position goals penalty_minutes =
     Player_init [] name team position goals penalty_minutes"

section \<open>Column values\<close>

text \<open>
  The frames are \<^verbatim>\<open>pandas.DataFrame\<close>s as \<^verbatim>\<open>pd.read_csv\<close> types them: a column of integers
  is \<^verbatim>\<open>int64\<close>, a column of decimals \<^verbatim>\<open>float64\<close>, a column of text \<^verbatim>\<open>object\<close> holding
  \<^verbatim>\<open>str\<close>. An \<^verbatim>\<open>int64\<close> is a 64-bit word read as two's complement; numpy's arithmetic on
  it wraps around silently.
\<close>

type_synonym i64 = "64 word"

text \<open>
  A \<^verbatim>\<open>float64\<close>: a finite value (the rational it denotes; \<open>Fin 0\<close> is the positive zero),
  the negative zero, the two infinities and NaN.
\<close>

datatype f64 = Fin rat | NegZero | PInf | NInf | NaN

definition pow2 :: "int \<Rightarrow> rat" where
  "pow2 k = (if 0 \<le> k then 2 ^ nat k else 1 / 2 ^ nat (- k))"

text \<open>The exponent of a positive rational: \<open>pow2 (ilog2 a) \<le> a < pow2 (ilog2 a + 1)\<close>.\<close>

definition ilog2 :: "rat \<Rightarrow> int" where
  "ilog2 a = (let (p, q) = quotient_of a; d = bitlen p - bitlen q
              in if pow2 d \<le> a then d else d - 1)"

definition round_half_even :: "rat \<Rightarrow> int" where
  "round_half_even x =
     (let f = \<lfloor>x\<rfloor>; r = x - of_int f
      in if r < 1 / 2 then f else if 1 / 2 < r then f + 1 else if even f then f else f + 1)"

text \<open>
  Rounding of an exact result to binary64, to nearest with ties to even: 53 significant
  bits, exponents from -1022 (below it the spacing stays \<open>2\<^sup>-\<^sup>1\<^sup>0\<^sup>7\<^sup>4\<close>), overflow to an
  infinity from \<open>2\<^sup>1\<^sup>0\<^sup>2\<^sup>4\<close> on, underflow to a zero of the same sign.
\<close>

definition rnd64 :: "rat \<Rightarrow> f64" where
  "rnd64 x =
     (if x = 0 then Fin 0
      else let a = \<bar>x\<bar>;
               q = pow2 (max (ilog2 a) (- 1022) - 52);
               m = round_half_even (a / q);
               r = of_int m * q
           in if pow2 1024 \<le> r then (if 0 < x then PInf else NInf)
              else if m = 0 then (if 0 < x then Fin 0 else NegZero)
              else Fin (if 0 < x then r else - r))"

definition f64_of_i64 :: "i64 \<Rightarrow> f64" where
  "f64_of_i64 w = rnd64 (of_int (sint w))"

fun is_nan :: "f64 \<Rightarrow> bool" where
  "is_nan NaN = True"
| "is_nan _ = False"

fun is_inf :: "f64 \<Rightarrow> bool" where
  "is_inf PInf = True"
| "is_inf NInf = True"
| "is_inf _ = False"

fun is_zero :: "f64 \<Rightarrow> bool" where
  "is_zero (Fin q) = (q = 0)"
| "is_zero NegZero = True"
| "is_zero _ = False"

fun signbit :: "f64 \<Rightarrow> bool" where
  "signbit (Fin q) = (q < 0)"
| "signbit NegZero = True"
| "signbit NInf = True"
| "signbit _ = False"

fun f64_val :: "f64 \<Rightarrow> rat" where
  "f64_val (Fin q) = q"
| "f64_val _ = 0"

definition signed_zero :: "bool \<Rightarrow> f64" where
  "signed_zero neg = (if neg then NegZero else Fin 0)"

definition signed_inf :: "bool \<Rightarrow> f64" where
  "signed_inf neg = (if neg then NInf else PInf)"

text \<open>
  IEEE 754 division, which numpy's \<^verbatim>\<open>true_divide\<close> performs without raising: \<open>0/0\<close> and
  \<open>\<infinity>/\<infinity>\<close> are NaN, a nonzero value over a zero is an infinity, the sign is the
  exclusive or of the operands' signs.
\<close>

definition f64_div :: "f64 \<Rightarrow> f64 \<Rightarrow> f64" where
  "f64_div x y =
     (let neg = (signbit x \<noteq> signbit y)
      in if is_nan x \<or> is_nan y then NaN
         else if is_inf x then (if is_inf y then NaN else signed_inf neg)
         else if is_inf y then signed_zero neg
         else if is_zero y then (if is_zero x then NaN else signed_inf neg)
         else if is_zero x then signed_zero neg
         else rnd64 (f64_val x / f64_val y))"

text \<open>IEEE 754 addition; an exact sum of zero is the positive zero unless both operands are
  negative zeros.\<close>

definition f64_add :: "f64 \<Rightarrow> f64 \<Rightarrow> f64" where
  "f64_add x y =
     (if is_nan x \<or> is_nan y then NaN
      else if is_inf x then (if is_inf y \<and> x \<noteq> y then NaN else x)
      else if is_inf y then y
      else if x = NegZero \<and> y = NegZero then NegZero
      else rnd64 (f64_val x + f64_val y))"

text \<open>The order of the values that are not NaN; the two zeros are equal.\<close>

fun f64_key :: "f64 \<Rightarrow> int \<times> rat" where
  "f64_key NInf = (- 1, 0)"
| "f64_key (Fin q) = (0, q)"
| "f64_key NegZero = (0, 0)"
| "f64_key PInf = (1, 0)"
| "f64_key NaN = (2, 0)"

section \<open>Series and frames\<close>

datatype series = Int64 "i64 list" | Float64 "f64 list" | Object "string list"

fun series_len :: "series \<Rightarrow> nat" where
  "series_len (Int64 xs) = length xs"
| "series_len (Float64 xs) = length xs"
| "series_len (Object xs) = length xs"

fun to_f64 :: "series \<Rightarrow> f64 list option" where
  "to_f64 (Int64 xs) = Some (map f64_of_i64 xs)"
| "to_f64 (Float64 xs) = Some xs"
| "to_f64 (Object xs) = None"

text \<open>
  \<^verbatim>\<open>a + b\<close> on two columns of one frame, element by element: \<^verbatim>\<open>int64\<close> addition wraps,
  a float operand makes the sum a float, strings are concatenated, and a string against
  a number raises \<^verbatim>\<open>TypeError\<close> at the first element (so not on an empty column).
\<close>

fun series_add :: "series \<Rightarrow> series \<Rightarrow> error + series" where
  "series_add (Int64 xs) (Int64 ys) = Inr (Int64 (map2 (+) xs ys))"
| "series_add (Object xs) (Object ys) = Inr (Object (map2 (@) xs ys))"
| "series_add a b =
     (case (to_f64 a, to_f64 b) of
        (Some xs, Some ys) \<Rightarrow> Inr (Float64 (map2 f64_add xs ys))
      | _ \<Rightarrow> if series_len a = 0 \<or> series_len b = 0 then Inr (Object []) else Inl TypeError)"

text \<open>
  \<^verbatim>\<open>a / b\<close>: true division, always in \<^verbatim>\<open>float64\<close> for numeric columns; integers are
  converted first. Strings cannot be divided.
\<close>

definition series_truediv :: "series \<Rightarrow> series \<Rightarrow> error + series" where
  "series_truediv a b =
     (case (to_f64 a, to_f64 b) of
        (Some xs, Some ys) \<Rightarrow> Inr (Float64 (map2 f64_div xs ys))
      | _ \<Rightarrow> if series_len a = 0 \<or> series_len b = 0 then Inr (Object []) else Inl TypeError)"

text \<open>\<^verbatim>\<open>column == position\<close> against a \<^verbatim>\<open>str\<close>: a numeric column is nowhere equal to it.\<close>

fun series_eq :: "series \<Rightarrow> string \<Rightarrow> bool list" where
  "series_eq (Object xs) v = map (\<lambda>x. x = v) xs"
| "series_eq s v = replicate (series_len s) False"

definition take_pos :: "nat list \<Rightarrow> 'a list \<Rightarrow> 'a list" where
  "take_pos indexer xs = map (\<lambda>i. xs ! i) indexer"

definition select :: "bool list \<Rightarrow> 'a list \<Rightarrow> 'a list" where
  "select keep xs = map fst (filter snd (zip xs keep))"

fun series_map :: "(i64 list \<Rightarrow> i64 list) \<Rightarrow> (f64 list \<Rightarrow> f64 list)
    \<Rightarrow> (string list \<Rightarrow> string list) \<Rightarrow> series \<Rightarrow> series" where
  "series_map f g h (Int64 xs) = Int64 (f xs)"
| "series_map f g h (Float64 xs) = Float64 (g xs)"
| "series_map f g h (Object xs) = Object (h xs)"

text \<open>
  numpy's \<^verbatim>\<open>argsort\<close>: the positions of the keys in ascending order of key. Equal keys are
  left in the order of their positions, which is what numpy's scalar quicksort kernel does
  on up to 16 elements (an insertion sort); on longer arrays pandas documents the default
  kind \<^verbatim>\<open>quicksort\<close> as not stable, so nothing below relies on the order of ties there.
\<close>

definition argsort :: "'k::linorder list \<Rightarrow> nat list" where
  "argsort ks = sort_key (\<lambda>j. ks ! j) [0..<length ks]"

text \<open>
  pandas' \<^verbatim>\<open>nargsort(items, ascending=False, na_position='last')\<close>: the positions without
  a missing value are reversed, sorted ascending, and the result reversed again; the
  positions of the missing values follow.
\<close>

definition nargsort_desc :: "('a \<Rightarrow> bool) \<Rightarrow> ('a \<Rightarrow> 'k::linorder) \<Rightarrow> 'a list \<Rightarrow> nat list" where
  "nargsort_desc isna key items =
     (let idx = [0..<length items];
          non_nan_idx = rev (filter (\<lambda>i. \<not> isna (items ! i)) idx);
          nan_idx = filter (\<lambda>i. isna (items ! i)) idx;
          non_nans = map (\<lambda>i. key (items ! i)) non_nan_idx;
          indexer = rev (take_pos (argsort non_nans) non_nan_idx)
      in indexer @ nan_idx)"

fun series_argsort_desc :: "series \<Rightarrow> nat list" where
  "series_argsort_desc (Int64 xs) = nargsort_desc (\<lambda>_. False) sint xs"
| "series_argsort_desc (Float64 xs) = nargsort_desc is_nan f64_key xs"
| "series_argsort_desc (Object xs) = nargsort_desc (\<lambda>_. False) (\<lambda>s. s) xs"

text \<open>
  A frame: the row labels and the columns in their order, each a series as long as the
  index. Column names are distinct, as \<^verbatim>\<open>read_csv\<close> makes them.
\<close>

record frame =
  index :: "nat list"
  columns :: "(string \<times> series) list"

definition wf_frame :: "frame \<Rightarrow> bool" where
  "wf_frame df \<longleftrightarrow>
     distinct (map fst (columns df)) \<and>
     list_all (\<lambda>cs. series_len (snd cs) = length (index df)) (columns df)"

text \<open>\<^verbatim>\<open>df[c]\<close>\<close>

definition getitem :: "frame \<Rightarrow> string \<Rightarrow> error + series" where
  "getitem df c =
     (case map_of (columns df) c of None \<Rightarrow> Inl (KeyError [c]) | Some s \<Rightarrow> Inr s)"

text \<open>\<^verbatim>\<open>df[c] = s\<close>: an existing column is replaced where it stands, a new one goes last.\<close>

definition setitem :: "frame \<Rightarrow> string \<Rightarrow> series \<Rightarrow> frame" where
  "setitem df c s = df\<lparr>columns := AList.update c s (columns df)\<rparr>"

text \<open>\<^verbatim>\<open>df[[c1, c2, ...]]\<close>: a new frame of these columns, \<^verbatim>\<open>KeyError\<close> naming the missing ones.\<close>

definition getitem_list :: "frame \<Rightarrow> string list \<Rightarrow> error + frame" where
  "getitem_list df cs =
     (case filter (\<lambda>c. map_of (columns df) c = None) cs of
        [] \<Rightarrow> Inr \<lparr>index = index df,
                  columns = List.map_filter (\<lambda>c. map_option (Pair c) (map_of (columns df) c)) cs\<rparr>
      | missing \<Rightarrow> Inl (KeyError missing))"

text \<open>\<^verbatim>\<open>df[m]\<close> for a boolean column \<open>m\<close>: a new frame of the rows where it holds.\<close>

definition getitem_mask :: "frame \<Rightarrow> bool list \<Rightarrow> frame" where
  "getitem_mask df keep =
     \<lparr>index = select keep (index df),
      columns = map (\<lambda>(c, s). (c, series_map (select keep) (select keep) (select keep) s))
                  (columns df)\<rparr>"

definition take_rows :: "frame \<Rightarrow> nat list \<Rightarrow> frame" where
  "take_rows df indexer =
     \<lparr>index = take_pos indexer (index df),
      columns = map (\<lambda>(c, s). (c, series_map (take_pos indexer) (take_pos indexer)
                                    (take_pos indexer) s)) (columns df)\<rparr>"

text \<open>\<^verbatim>\<open>df.sort_values(by=c, ascending=False)\<close>: a new frame, the input is left as it is.\<close>

definition sort_values_desc :: "frame \<Rightarrow> string \<Rightarrow> error + frame" where
  "sort_values_desc df by =
     (case getitem df by of
        Inl e \<Rightarrow> Inl e
      | Inr k \<Rightarrow> Inr (take_rows df (series_argsort_desc k)))"

text \<open>
  \<^verbatim>\<open>df.head(n)\<close> is \<^verbatim>\<open>df.iloc[:n]\<close>: the first \<open>n\<close> rows, and for a negative \<open>n\<close> all rows
  but the last \<open>-n\<close>.
\<close>

definition slice_stop :: "nat \<Rightarrow> int \<Rightarrow> nat" where
  "slice_stop len n = (if 0 \<le> n then min (nat n) len else len - nat (- n))"

definition head :: "frame \<Rightarrow> int \<Rightarrow> frame" where
  "head df n =
     (let k = slice_stop (length (index df)) n
      in \<lparr>index = take k (index df),
          columns = map (\<lambda>(c, s). (c, series_map (take k) (take k) (take k) s)) (columns df)\<rparr>)"

section \<open>The data handler\<close>

text \<open>\<^verbatim>\<open>return skaters[skaters['Pos'] == position]\<close>\<close>

definition filter_skaters_by_position :: "frame \<Rightarrow> string \<Rightarrow> error + frame" where
  "filter_skaters_by_position skaters position =
     (case getitem skaters ''Pos'' of
        Inl e \<Rightarrow> Inl e
      | Inr pos \<Rightarrow> Inr (getitem_mask skaters (series_eq pos position)))"

text \<open>
  \<^verbatim>\<open>skaters['Points'] = skaters['G'] + skaters['A']; return skaters[['Player Name', 'Points']]\<close>.
  The assignment writes into the caller's frame, so the function yields the frame it was
  given as it stands afterwards, and the returned frame or the exception raised.
\<close>

definition calculate_points :: "frame \<Rightarrow> frame \<times> (error + frame)" where
  "calculate_points skaters =
     (case getitem skaters ''G'' of
        Inl e \<Rightarrow> (skaters, Inl e)
      | Inr g \<Rightarrow>
          (case getitem skaters ''A'' of
             Inl e \<Rightarrow> (skaters, Inl e)
           | Inr a \<Rightarrow>
               (case series_add g a of
                  Inl e \<Rightarrow> (skaters, Inl e)
                | Inr points \<Rightarrow>
                    (let skaters' = setitem skaters ''Points'' points
                     in (skaters', getitem_list skaters' [''Player Name'', ''Points''])))))"

text \<open>\<^verbatim>\<open>sorted_skaters = skaters.sort_values(by='Points', ascending=False);
  return sorted_skaters.head(num_players)\<close>\<close>

definition top_players_by_points :: "frame \<Rightarrow> int \<Rightarrow> error + frame" where
  "top_players_by_points skaters num_players =
     (case sort_values_desc skaters ''Points'' of
        Inl e \<Rightarrow> Inl e
      | Inr sorted_skaters \<Rightarrow> Inr (head sorted_skaters num_players))"

text \<open>\<^verbatim>\<open>goalies['SavePercentage'] = goalies['SV'] / goalies['SA'];
  return goalies[['Player Name', 'SavePercentage']]\<close>\<close>

definition calculate_save_percentage :: "frame \<Rightarrow> frame \<times> (error + frame)" where
  "calculate_save_percentage goalies =
     (case getitem goalies ''SV'' of
        Inl e \<Rightarrow> (goalies, Inl e)
      | Inr sv \<Rightarrow>
          (case getitem goalies ''SA'' of
             Inl e \<Rightarrow> (goalies, Inl e)
           | Inr sa \<Rightarrow>
               (case series_truediv sv sa of
                  Inl e \<Rightarrow> (goalies, Inl e)
                | Inr pct \<Rightarrow>
                    (let goalies' = setitem goalies ''SavePercentage'' pct
                     in (goalies', getitem_list goalies' [''Player Name'', ''SavePercentage''])))))"

definition top_goalies_by_save_percentage :: "frame \<Rightarrow> int \<Rightarrow> error + frame" where
  "top_goalies_by_save_percentage goalies num_goalies =
     (case sort_values_desc goalies ''SavePercentage'' of
        Inl e \<Rightarrow> Inl e
      | Inr sorted_goalies \<Rightarrow> Inr (head sorted_goalies num_goalies))"

section \<open>Frames as shared objects\<close>

text \<open>
  The caller holds a reference to the frame it passes. The store lists the frames that
  exist and a reference is a position in it. Each pandas operation the functions use
  either makes a new frame, which is put at the end of the store (\<^verbatim>\<open>df[m]\<close>,
  \<^verbatim>\<open>df[[c1, c2]]\<close>, \<^verbatim>\<open>sort_values\<close>, \<^verbatim>\<open>head\<close>), or writes into the frame it is applied to
  (\<^verbatim>\<open>df[c] = s\<close>). The functions below are the data handler's, on references.
\<close>

type_synonym store = "frame list"

definition new_frame :: "store \<Rightarrow> frame \<Rightarrow> store \<times> nat" where
  "new_frame st df = (st @ [df], length st)"

definition df_setitem :: "store \<Rightarrow> nat \<Rightarrow> string \<Rightarrow> series \<Rightarrow> store" where
  "df_setitem st r c s = st[r := setitem (st ! r) c s]"

text \<open>\<^verbatim>\<open>return skaters[skaters['Pos'] == position]\<close>\<close>

definition filter_skaters_by_position_on :: "store \<Rightarrow> nat \<Rightarrow> string \<Rightarrow> store \<times> (error + nat)" where
  "filter_skaters_by_position_on st skaters position =
     (case getitem (st ! skaters) ''Pos'' of
        Inl e \<Rightarrow> (st, Inl e)
      | Inr pos \<Rightarrow>
          (case new_frame st (getitem_mask (st ! skaters) (series_eq pos position)) of
             (st, result) \<Rightarrow> (st, Inr result)))"

text \<open>\<^verbatim>\<open>skaters['Points'] = skaters['G'] + skaters['A']; return skaters[['Player Name', 'Points']]\<close>\<close>

definition calculate_points_on :: "store \<Rightarrow> nat \<Rightarrow> store \<times> (error + nat)" where
  "calculate_points_on st skaters =
     (case getitem (st ! skaters) ''G'' of
        Inl e \<Rightarrow> (st, Inl e)
      | Inr g \<Rightarrow>
          (case getitem (st ! skaters) ''A'' of
             Inl e \<Rightarrow> (st, Inl e)
           | Inr a \<Rightarrow>
               (case series_add g a of
                  Inl e \<Rightarrow> (st, Inl e)
                | Inr points \<Rightarrow>
                    (let st = df_setitem st skaters ''Points'' points
                     in case getitem_list (st ! skaters) [''Player Name'', ''Points''] of
                          Inl e \<Rightarrow> (st, Inl e)
                        | Inr out \<Rightarrow>
                            (case new_frame st out of (st, result) \<Rightarrow> (st, Inr result))))))"

text \<open>\<^verbatim>\<open>sorted_skaters = skaters.sort_values(by='Points', ascending=False);
  return sorted_skaters.head(num_players)\<close>\<close>

definition top_players_by_points_on :: "store \<Rightarrow> nat \<Rightarrow> int \<Rightarrow> store \<times> (error + nat)" where
  "top_players_by_points_on st skaters num_players =
     (case sort_values_desc (st ! skaters) ''Points'' of
        Inl e \<Rightarrow> (st, Inl e)
      | Inr sorted_df \<Rightarrow>
          (case new_frame st sorted_df of
             (st, sorted_skaters) \<Rightarrow>
               (case new_frame st (head (st ! sorted_skaters) num_players) of
                  (st, result) \<Rightarrow> (st, Inr result))))"

text \<open>\<^verbatim>\<open>goalies['SavePercentage'] = goalies['SV'] / goalies['SA'];
  return goalies[['Player Name', 'SavePercentage']]\<close>\<close>

definition calculate_save_percentage_on :: "store \<Rightarrow> nat \<Rightarrow> store \<times> (error + nat)" where
  "calculate_save_percentage_on st goalies =
     (case getitem (st ! goalies) ''SV'' of
        Inl e \<Rightarrow> (st, Inl e)
      | Inr sv \<Rightarrow>
          (case getitem (st ! goalies) ''SA'' of
             Inl e \<Rightarrow> (st, Inl e)
           | Inr sa \<Rightarrow>
               (case series_truediv sv sa of
                  Inl e \<Rightarrow> (st, Inl e)
                | Inr pct \<Rightarrow>
                    (let st = df_setitem st goalies ''SavePercentage'' pct
                     in case getitem_list (st ! goalies) [''Player Name'', ''SavePercentage''] of
                          Inl e \<Rightarrow> (st, Inl e)
                        | Inr out \<Rightarrow>
                            (case new_frame st out of (st, result) \<Rightarrow> (st, Inr result))))))"

section \<open>Goalies\<close>

text \<open>\<^verbatim>\<open>Goalie.__init__(self, name, country, saves, goals_allowed)\<close> calls
  \<^verbatim>\<open>super().__init__(name, country, position="Goalie", goals=0, penalty_minutes=0)\<close> and
  then sets \<^verbatim>\<open>saves\<close> and \<^verbatim>\<open>goals_allowed\<close>.\<close>

definition Goalie_init :: "pyobj \<Rightarrow> pyval \<Rightarrow> pyval \<Rightarrow> pyval \<Rightarrow> pyval \<Rightarrow> pyobj" where
  "Goalie_init self name country saves goals_allowed =
     (let self = Player_init self name country (PyStr ''Goalie'') (PyInt 0) (PyInt 0);
          self = setattr self ''saves'' saves;
          self = setattr self ''goals_allowed'' goals_allowed
      in self)"

definition Goalie :: "pyval \<Rightarrow> pyval \<Rightarrow> pyval \<Rightarrow> pyval \<Rightarrow> pyobj" where
  "Goalie name country saves goals_allowed = Goalie_init [] name country saves goals_allowed"

section \<open>Team codes in free text\<close>

text \<open>
  \<^verbatim>\<open>extract_team_code\<close> runs \<^verbatim>\<open>re.search(r'\(([A-Z]+)\)', player_info)\<close> and returns
  group 1 of the match, or \<^verbatim>\<open>None\<close>. The class \<^verbatim>\<open>[A-Z]\<close> holds the code points 65 to 90.
  A string is the list of its characters, one beyond ASCII being its UTF-8 bytes, none
  of which is a parenthesis or a letter.
\<close>

definition is_upper :: "char \<Rightarrow> bool" where
  "is_upper c = (65 \<le> (of_char c :: nat) \<and> (of_char c :: nat) \<le> 90)"

text \<open>
  The pattern anchored at the head of \<open>s\<close>: an opening parenthesis, the greedy run
  \<^verbatim>\<open>[A-Z]+\<close>, a closing parenthesis. A shorter run would have to be followed by a letter,
  never by the parenthesis, so backtracking finds nothing the longest run does not.
\<close>

definition match_here :: "string \<Rightarrow> string option" where
  "match_here s =
     (case s of
        [] \<Rightarrow> None
      | c # rest \<Rightarrow>
          if c = CHR ''(''
          then (let run = takeWhile is_upper rest;
                    after = dropWhile is_upper rest
                in if run \<noteq> [] \<and> (case after of [] \<Rightarrow> False | d # _ \<Rightarrow> d = CHR '')'')
                   then Some run else None)
          else None)"

text \<open>\<^verbatim>\<open>re.search\<close> tries each start position from the left and keeps the first match.\<close>

fun re_search :: "string \<Rightarrow> string option" where
  "re_search [] = None"
| "re_search (c # cs) =
     (case match_here (c # cs) of Some g \<Rightarrow> Some g | None \<Rightarrow> re_search cs)"

definition extract_team_code :: "string \<Rightarrow> string option" where
  "extract_team_code player_info =
     (case re_search player_info of Some g \<Rightarrow> Some g | None \<Rightarrow> None)"

text \<open>
  The specification's wording, kept apart from the code: at position \<open>i\<close> of \<open>s\<close> stands a
  parenthesised run \<open>code\<close> of one or more uppercase ASCII letters.
\<close>

definition paren_run :: "string \<Rightarrow> nat \<Rightarrow> string \<Rightarrow> bool" where
  "paren_run s i code \<longleftrightarrow>
     code \<noteq> [] \<and> list_all is_upper code \<and>
     take (length code + 2) (drop i s) = CHR ''('' # code @ [CHR '')'']"

section \<open>The snapshot database\<close>

text \<open>
  \<^verbatim>\<open>create_database\<close> talks to SQLite through a connection. The model records the calls
  made on it, in order, with the statement text and the bound parameters; what SQLite
  does with a statement is not part of the program.
\<close>

datatype db_call =
    Connect string
  | Execute string "pyval list"
  | Commit
  | Close

definition create_table_sql :: string where
  "create_table_sql = ''CREATE TABLE IF NOT EXISTS players (name TEXT, country TEXT, position TEXT, goals INTEGER, penalty_minutes INTEGER)''"

definition insert_sql :: string where
  "insert_sql = ''INSERT INTO players VALUES (?, ?, ?, ?, ?)''"

text \<open>The parameter tuple \<^verbatim>\<open>(player.name, player.country, player.position, player.goals,
  player.penalty_minutes)\<close>, evaluated from left to right before \<^verbatim>\<open>execute\<close> is called.\<close>

definition row_params :: "pyobj \<Rightarrow> error + pyval list" where
  "row_params player =
     (case getattr player ''name'' of Inl e \<Rightarrow> Inl e | Inr name \<Rightarrow>
      case getattr player ''country'' of Inl e \<Rightarrow> Inl e | Inr country \<Rightarrow>
      case getattr player ''position'' of Inl e \<Rightarrow> Inl e | Inr position \<Rightarrow>
      case getattr player ''goals'' of Inl e \<Rightarrow> Inl e | Inr goals \<Rightarrow>
      case getattr player ''penalty_minutes'' of Inl e \<Rightarrow> Inl e | Inr penalty_minutes \<Rightarrow>
        Inr [name, country, position, goals, penalty_minutes])"

text \<open>The \<^verbatim>\<open>for player in players\<close> loop; an exception leaves it with the calls made so far.\<close>

fun insert_players :: "pyobj list \<Rightarrow> db_call list \<Rightarrow> db_call list \<times> (error + unit)" where
  "insert_players [] calls = (calls, Inr ())"
| "insert_players (player # players) calls =
     (case row_params player of
        Inl e \<Rightarrow> (calls, Inl e)
      | Inr params \<Rightarrow> insert_players players (calls @ [Execute insert_sql params]))"

definition create_database :: "pyobj list \<Rightarrow> db_call list \<times> (error + unit)" where
  "create_database players =
     (case insert_players players [Connect ''nhl_players.db'', Execute create_table_sql []] of
        (calls, Inl e) \<Rightarrow> (calls, Inl e)
      | (calls, Inr _) \<Rightarrow> (calls @ [Commit, Close], Inr ()))"

section \<open>Sample frames\<close>

text \<open>One skater whose goals and assists are each \<open>2\<^sup>6\<^sup>2\<close>, as \<^verbatim>\<open>read_csv\<close> would load it.\<close>

definition skaters_big :: frame where
  "skaters_big =
     \<lparr>index = [0],
      columns = [(''Player Name'', Object [''A'']), (''Team'', Object [''BOS'']),
                 (''Pos'', Object [''Forward'']),
                 (''G'', Int64 [4611686018427387904]), (''A'', Int64 [4611686018427387904]),
                 (''PIM'', Int64 [10])]\<rparr>"

text \<open>The two forwards of the specification's example, tied on 8 points, in both orders.\<close>

definition forwards_AB :: frame where
  "forwards_AB =
     \<lparr>index = [0, 1],
      columns = [(''Player Name'', Object [''A'', ''B'']), (''Team'', Object [''BOS'', ''WSH'']),
                 (''Pos'', Object [''Forward'', ''Forward'']),
                 (''G'', Int64 [5, 5]), (''A'', Int64 [3, 3]), (''PIM'', Int64 [10, 2])]\<rparr>"

definition forwards_BA :: frame where
  "forwards_BA =
     \<lparr>index = [0, 1],
      columns = [(''Player Name'', Object [''B'', ''A'']), (''Team'', Object [''WSH'', ''BOS'']),
                 (''Pos'', Object [''Forward'', ''Forward'']),
                 (''G'', Int64 [5, 5]), (''A'', Int64 [3, 3]), (''PIM'', Int64 [2, 10])]\<rparr>"

text \<open>Two goalies who faced no shots: one entered with 5 saves, one with none.\<close>

definition goalies_idle :: frame where
  "goalies_idle =
     \<lparr>index = [0, 1],
      columns = [(''Player Name'', Object [''B'', ''C'']),
                 (''Team'', Object [''WSH'', ''NYR'']),
                 (''SV'', Int64 [5, 0]), (''SA'', Int64 [0, 0])]\<rparr>"

text \<open>A goalie with 27 saves on 30 shots, followed by one with 5 saves entered against
  no shots.\<close>

definition goalies_AB :: frame where
  "goalies_AB =
     \<lparr>index = [0, 1],
      columns = [(''Player Name'', Object [''A'', ''B'']),
                 (''Team'', Object [''BOS'', ''WSH'']),
                 (''SV'', Int64 [27, 5]), (''SA'', Int64 [30, 0])]\<rparr>"

text \<open>Three skaters with their points, two of them tied, and three goalies with their
  save percentages, one of them missing.\<close>

definition skaters_pts :: frame where
  "skaters_pts =
     \<lparr>index = [0, 1, 2],
      columns = [(''Player Name'', Object [''B'', ''C'', ''A'']),
                 (''Points'', Int64 [8, 12, 8])]\<rparr>"

definition goalies_pct :: frame where
  "goalies_pct =
     \<lparr>index = [0, 1, 2],
      columns = [(''Player Name'', Object [''A'', ''B'', ''C'']),
                 (''SavePercentage'', Float64 [Fin (1 / 2), NaN, Fin 1])]\<rparr>"

text \<open>Four goalies: 27 saves on 30 shots, 5 saves entered against no shots, neither
  shots nor saves, 30 saves on 30 shots.\<close>

definition goalies4 :: frame where
  "goalies4 =
     \<lparr>index = [0, 1, 2, 3],
      columns = [(''Player Name'', Object [''A'', ''B'', ''C'', ''D'']),
                 (''Team'', Object [''BOS'', ''WSH'', ''NYR'', ''PIT'']),
                 (''SV'', Int64 [27, 5, 0, 30]), (''SA'', Int64 [30, 0, 0, 30])]\<rparr>"

section \<open>Derived notions\<close>

text \<open>The save percentages of two integer columns, row by row.\<close>

definition save_pct :: "i64 list \<Rightarrow> i64 list \<Rightarrow> f64 list" where
  "save_pct svs sas = map2 f64_div (map f64_of_i64 svs) (map f64_of_i64 sas)"

text \<open>
  The pieces of \<open>nargsort_desc\<close>: the positions that hold a value, those that hold none,
  and the former in descending order of key.
\<close>

definition present_idx :: "('a \<Rightarrow> bool) \<Rightarrow> 'a list \<Rightarrow> nat list" where
  "present_idx isna items = filter (\<lambda>i. \<not> isna (items ! i)) [0..<length items]"

definition missing_idx :: "('a \<Rightarrow> bool) \<Rightarrow> 'a list \<Rightarrow> nat list" where
  "missing_idx isna items = filter (\<lambda>i. isna (items ! i)) [0..<length items]"

definition ranked_idx :: "('a \<Rightarrow> bool) \<Rightarrow> ('a \<Rightarrow> 'k::linorder) \<Rightarrow> 'a list \<Rightarrow> nat list" where
  "ranked_idx isna key items =
     rev (take_pos (argsort (map (\<lambda>i. key (items ! i)) (rev (present_idx isna items))))
            (rev (present_idx isna items)))"

text \<open>
  The rows a sequence of calls inserts into \<^verbatim>\<open>players\<close>, and the rows the loop of
  \<^verbatim>\<open>create_database\<close> gets to write for a list of players: those of the players before the
  first one whose parameters cannot be read.
\<close>

fun rows_written :: "db_call list \<Rightarrow> pyval list list" where
  "rows_written [] = []"
| "rows_written (Execute sql params # calls) =
     (if sql = insert_sql then params # rows_written calls else rows_written calls)"
| "rows_written (_ # calls) = rows_written calls"

fun rows_of :: "pyobj list \<Rightarrow> pyval list list" where
  "rows_of [] = []"
| "rows_of (player # players) =
     (case row_params player of Inl e \<Rightarrow> [] | Inr params \<Rightarrow> params # rows_of players)"

text \<open>Two goalies, the first with a \<^verbatim>\<open>country\<close> attribute set on it after construction.\<close>

definition snapshot_goalies :: "pyobj list" where
  "snapshot_goalies =
     [setattr (Goalie (PyStr ''G1'') (PyStr ''CAN'') (PyInt 30) (PyInt 2)) ''country'' (PyStr ''CAN''),
      Goalie (PyStr ''G2'') (PyStr ''USA'') (PyInt 25) (PyInt 3)]"

section \<open>The first parenthesised run\<close>

lemma not_upper_paren [simp]: "\<not> is_upper CHR '')''" "\<not> is_upper CHR ''(''"
  by (simp_all add: is_upper_def)

lemma match_here_iff: "match_here s = Some code \<longleftrightarrow> paren_run s 0 code"
proof
  assume "match_here s = Some code"
  then obtain rest where s: "s = CHR ''('' # rest" and c: "code = takeWhile is_upper rest"
     and ne: "code \<noteq> []" and a: "\<exists>post. dropWhile is_upper rest = CHR '')'' # post"
    by (auto simp: match_here_def Let_def split: list.splits if_splits)
  from a obtain post where post: "dropWhile is_upper rest = CHR '')'' # post" by blast
  have "rest = code @ CHR '')'' # post"
    using takeWhile_dropWhile_id [of is_upper rest] c post by simp
  moreover have "list_all is_upper code"
    unfolding c by (simp add: list_all_iff) (meson set_takeWhileD)
  ultimately show "paren_run s 0 code"
    using ne s by (simp add: paren_run_def)
next
  assume "paren_run s 0 code"
  then have ne: "code \<noteq> []" and up: "list_all is_upper code"
    and t: "take (length code + 2) s = CHR ''('' # code @ [CHR '')'']"
    by (simp_all add: paren_run_def)
  from t obtain rest where s: "s = CHR ''('' # rest" by (cases s) auto
  with t have "take (length code + 1) rest = code @ [CHR '')'']" by simp
  then have "rest = (code @ [CHR '')'']) @ drop (length code + 1) rest"
    by (metis append_take_drop_id)
  then obtain post where r: "rest = code @ CHR '')'' # post" by simp
  have "takeWhile is_upper rest = code" "dropWhile is_upper rest = CHR '')'' # post"
    using up by (simp_all add: r list_all_iff)
  then show "match_here s = Some code"
    using ne s by (simp add: match_here_def)
qed

lemma paren_run_Nil [simp]: "\<not> paren_run [] i code"
  by (simp add: paren_run_def)

lemma paren_run_Suc [simp]: "paren_run (c # cs) (Suc i) code \<longleftrightarrow> paren_run cs i code"
  by (simp add: paren_run_def)

lemma match_here_None: "match_here s = None \<longleftrightarrow> (\<forall>code. \<not> paren_run s 0 code)"
  using match_here_iff [of s] by (cases "match_here s") auto

lemma re_search_Some:
  "re_search s = Some code \<longleftrightarrow>
     (\<exists>i. paren_run s i code \<and> (\<forall>j<i. \<forall>code'. \<not> paren_run s j code'))"
proof (induction s)
  case Nil
  show ?case by simp
next
  case (Cons c cs)
  show ?case
  proof (cases "match_here (c # cs)")
    case (Some g)
    then have g: "paren_run (c # cs) 0 g" by (simp add: match_here_iff)
    have uniq: "g = code'" if "paren_run (c # cs) 0 code'" for code'
      using that Some match_here_iff [of "c # cs" code'] by simp
    have rs: "re_search (c # cs) = Some g" using Some by simp
    show ?thesis
    proof
      assume "re_search (c # cs) = Some code"
      with rs have "g = code" by simp
      with g have "paren_run (c # cs) 0 code \<and> (\<forall>j<0. \<forall>code'. \<not> paren_run (c # cs) j code')"
        by simp
      then show "\<exists>i. paren_run (c # cs) i code \<and> (\<forall>j<i. \<forall>code'. \<not> paren_run (c # cs) j code')"
        by (rule exI)
    next
      assume "\<exists>i. paren_run (c # cs) i code \<and> (\<forall>j<i. \<forall>code'. \<not> paren_run (c # cs) j code')"
      then obtain i where i: "paren_run (c # cs) i code"
        "\<forall>j<i. \<forall>code'. \<not> paren_run (c # cs) j code'" by blast
      have "i = 0"
      proof (rule ccontr)
        assume "i \<noteq> 0"
        then have "0 < i" by simp
        with i(2) have "\<not> paren_run (c # cs) 0 g" by blast
        with g show False by simp
      qed
      with i(1) have "g = code" using uniq by simp
      with rs show "re_search (c # cs) = Some code" by simp
    qed
  next
    case None
    then have no: "\<not> paren_run (c # cs) 0 code'" for code'
      by (simp add: match_here_None)
    have "(\<exists>i. paren_run (c # cs) i code \<and> (\<forall>j<i. \<forall>code'. \<not> paren_run (c # cs) j code'))
       \<longleftrightarrow> (\<exists>i. paren_run cs i code \<and> (\<forall>j<i. \<forall>code'. \<not> paren_run cs j code'))"
      (is "?L \<longleftrightarrow> ?R")
    proof
      assume ?L
      then obtain i where i: "paren_run (c # cs) i code"
        "\<forall>j<i. \<forall>code'. \<not> paren_run (c # cs) j code'" by blast
      from i(1) no obtain k where k: "i = Suc k" by (cases i) auto
      have "\<forall>j<k. \<forall>code'. \<not> paren_run cs j code'"
      proof (intro allI impI)
        fix j code' assume "j < k"
        then have "Suc j < i" using k by simp
        with i(2) have "\<not> paren_run (c # cs) (Suc j) code'" by blast
        then show "\<not> paren_run cs j code'" by simp
      qed
      with i(1) k show ?R by auto
    next
      assume ?R
      then obtain i where i: "paren_run cs i code"
        "\<forall>j<i. \<forall>code'. \<not> paren_run cs j code'" by blast
      have "\<forall>j<Suc i. \<forall>code'. \<not> paren_run (c # cs) j code'"
      proof (intro allI impI)
        fix j code' assume "j < Suc i"
        then show "\<not> paren_run (c # cs) j code'"
          using no i(2) by (cases j) auto
      qed
      with i(1) show ?L by (intro exI [of _ "Suc i"]) simp
    qed
    with None Cons.IH show ?thesis by simp
  qed
qed

lemma re_search_None: "re_search s = None \<longleftrightarrow> (\<forall>i code. \<not> paren_run s i code)"
proof (induction s)
  case Nil
  show ?case by simp
next
  case (Cons c cs)
  show ?case
  proof (cases "match_here (c # cs)")
    case (Some g)
    then have "paren_run (c # cs) 0 g" by (simp add: match_here_iff)
    with Some show ?thesis by auto
  next
    case None
    then have no: "\<not> paren_run (c # cs) 0 code'" for code'
      by (simp add: match_here_None)
    have "(\<forall>i code. \<not> paren_run (c # cs) i code) \<longleftrightarrow> (\<forall>i code. \<not> paren_run cs i code)"
    proof
      assume a: "\<forall>i code. \<not> paren_run (c # cs) i code"
      show "\<forall>i code. \<not> paren_run cs i code"
      proof (intro allI)
        fix i code
        from a have "\<not> paren_run (c # cs) (Suc i) code" by blast
        then show "\<not> paren_run cs i code" by simp
      qed
    next
      assume a: "\<forall>i code. \<not> paren_run cs i code"
      show "\<forall>i code. \<not> paren_run (c # cs) i code"
      proof (intro allI)
        fix i code
        show "\<not> paren_run (c # cs) i code" using no a by (cases i) auto
      qed
    qed
    with None Cons.IH show ?thesis by simp
  qed
qed

text \<open>
  C6. For every input string, \<^verbatim>\<open>extract_team_code\<close> returns the contents of the first
  parenthesised run of one or more uppercase ASCII letters when there is one, and the
  absent value (no error) exactly when there is none.
\<close>

theorem extract_team_code_first_run:
  "(extract_team_code s = Some code \<longleftrightarrow>
      (\<exists>i. paren_run s i code \<and> (\<forall>j<i. \<forall>code'. \<not> paren_run s j code')))
   \<and> (extract_team_code s = None \<longleftrightarrow> (\<forall>i code'. \<not> paren_run s i code'))"
proof -
  have "extract_team_code s = re_search s"
    by (cases "re_search s") (simp_all add: extract_team_code_def)
  then show ?thesis
    by (simp add: re_search_Some re_search_None)
qed

theorem extract_team_code_first_run_witness:
  "extract_team_code ''John Smith (BOS)'' = Some ''BOS''
   \<and> (\<exists>i. paren_run ''John Smith (BOS)'' i ''BOS''
          \<and> (\<forall>j<i. \<forall>code'. \<not> paren_run ''John Smith (BOS)'' j code'))
   \<and> extract_team_code ''John Smith'' = None
   \<and> (\<forall>i code'. \<not> paren_run ''John Smith'' i code')"
proof -
  have a: "extract_team_code ''John Smith (BOS)'' = Some ''BOS''"
    by (simp add: extract_team_code_def match_here_def is_upper_def)
  have b: "extract_team_code ''John Smith'' = None"
    by (simp add: extract_team_code_def match_here_def is_upper_def)
  show ?thesis
    using a b extract_team_code_first_run [of "''John Smith (BOS)''" "''BOS''"]
      extract_team_code_first_run [of "''John Smith''" "''X''"]
    by simp
qed

section \<open>Reading and writing columns\<close>

lemma wf_frame_len:
  assumes "wf_frame df" and "map_of (columns df) c = Some s"
  shows "series_len s = length (index df)"
proof -
  from assms(2) have "(c, s) \<in> set (columns df)" by (rule map_of_SomeD)
  with assms(1) show ?thesis by (auto simp: wf_frame_def list_all_iff)
qed

lemma getitem_Some: "map_of (columns df) c = Some s \<Longrightarrow> getitem df c = Inr s"
  by (simp add: getitem_def)

lemma getitem_None: "map_of (columns df) c = None \<Longrightarrow> getitem df c = Inl (KeyError [c])"
  by (simp add: getitem_def)

lemma map_of_setitem:
  "map_of (columns (setitem df c s)) c' = (if c' = c then Some s else map_of (columns df) c')"
  by (simp add: setitem_def update_conv')

lemma index_setitem [simp]: "index (setitem df c s) = index df"
  by (simp add: setitem_def)

lemma getitem_list_pair:
  assumes "map_of (columns df) a = Some x" and "map_of (columns df) b = Some y"
  shows "getitem_list df [a, b] = Inr \<lparr>index = index df, columns = [(a, x), (b, y)]\<rparr>"
  using assms by (simp add: getitem_list_def)

lemma getitem_list_missing:
  assumes "map_of (columns df) a = None"
  shows "\<exists>missing. getitem_list df (a # cs) = Inl (KeyError missing)"
  using assms by (simp add: getitem_list_def)

section \<open>Points\<close>

lemma calculate_points_ok:
  assumes "map_of (columns df) ''G'' = Some g" and "map_of (columns df) ''A'' = Some a"
    and "series_add g a = Inr p" and "map_of (columns df) ''Player Name'' = Some nm"
  shows "calculate_points df =
           (setitem df ''Points'' p,
            Inr \<lparr>index = index df, columns = [(''Player Name'', nm), (''Points'', p)]\<rparr>)"
proof -
  have "getitem_list (setitem df ''Points'' p) [''Player Name'', ''Points''] =
          Inr \<lparr>index = index df, columns = [(''Player Name'', nm), (''Points'', p)]\<rparr>"
    using getitem_list_pair [of "setitem df ''Points'' p" "''Player Name''" nm "''Points''" p]
      assms(4) by (simp add: map_of_setitem)
  then show ?thesis
    using assms(1-3) by (simp add: calculate_points_def getitem_Some)
qed

lemma sint_add_in_range:
  fixes x y :: i64
  assumes "- (2 ^ 63) \<le> sint x + sint y" and "sint x + sint y < 2 ^ 63"
  shows "sint (x + y) = sint x + sint y"
proof -
  have "sint (x + y) = signed_take_bit 63 (sint x + sint y)"
    by (simp add: sint_word_ariths)
  also have "\<dots> = sint x + sint y"
    using assms by (simp add: signed_take_bit_int_eq_self)
  finally show ?thesis .
qed

text \<open>
  C2, as the code has it. On a frame whose \<^verbatim>\<open>G\<close> and \<^verbatim>\<open>A\<close> columns are \<^verbatim>\<open>int64\<close> and that has
  a \<^verbatim>\<open>Player Name\<close> column, \<^verbatim>\<open>calculate_points\<close> returns a frame whose \<^verbatim>\<open>Points\<close> column is
  the 64-bit sum of the two, row by row; it equals goals + assists as integers, without
  rounding, on every row where that sum fits in 64 bits (it is below \<open>2\<^sup>6\<^sup>3\<close>).
\<close>

theorem calculate_points_sum:
  assumes "wf_frame df"
    and "map_of (columns df) ''G'' = Some (Int64 gs)"
    and "map_of (columns df) ''A'' = Some (Int64 as)"
    and "map_of (columns df) ''Player Name'' = Some nm"
  shows "\<exists>out ps. snd (calculate_points df) = Inr out
           \<and> map_of (columns out) ''Points'' = Some (Int64 ps)
           \<and> length ps = length (index df)
           \<and> (\<forall>i < length (index df). ps ! i = gs ! i + as ! i
                 \<and> (- (2 ^ 63) \<le> sint (gs ! i) + sint (as ! i)
                      \<and> sint (gs ! i) + sint (as ! i) < 2 ^ 63
                    \<longrightarrow> sint (ps ! i) = sint (gs ! i) + sint (as ! i)))"
proof -
  let ?ps = "map2 (+) gs as"
  have lg: "length gs = length (index df)" and la: "length as = length (index df)"
    using wf_frame_len [OF assms(1) assms(2)] wf_frame_len [OF assms(1) assms(3)] by simp_all
  have "calculate_points df =
          (setitem df ''Points'' (Int64 ?ps),
           Inr \<lparr>index = index df, columns = [(''Player Name'', nm), (''Points'', Int64 ?ps)]\<rparr>)"
    by (rule calculate_points_ok [OF assms(2) assms(3) _ assms(4)]) simp
  moreover have "length ?ps = length (index df)"
    using lg la by simp
  moreover have "?ps ! i = gs ! i + as ! i" if "i < length (index df)" for i
    using that lg la by simp
  ultimately show ?thesis
    by (intro exI [of _ "\<lparr>index = index df,
          columns = [(''Player Name'', nm), (''Points'', Int64 ?ps)]\<rparr>"] exI [of _ ?ps])
       (simp add: sint_add_in_range)
qed

theorem calculate_points_sum_witness:
  "\<exists>out ps. snd (calculate_points forwards_AB) = Inr out
     \<and> map_of (columns out) ''Points'' = Some (Int64 ps)
     \<and> length ps = 2
     \<and> (\<forall>i < 2. ps ! i = [5, 5] ! i + [3, 3] ! i
           \<and> sint (ps ! i) = sint ([5, 5 :: i64] ! i) + sint ([3, 3 :: i64] ! i))"
proof -
  have wf: "wf_frame forwards_AB"
    by (simp add: wf_frame_def forwards_AB_def)
  have rng: "- (2 ^ 63) \<le> sint ([5, 5 :: i64] ! i) + sint ([3, 3 :: i64] ! i)
      \<and> sint ([5, 5 :: i64] ! i) + sint ([3, 3 :: i64] ! i) < 2 ^ 63" if "i < 2" for i
    using that by (cases i) (simp_all add: less_Suc_eq)
  from calculate_points_sum [OF wf, of "[5, 5]" "[3, 3]" "Object [''A'', ''B'']"]
  obtain out ps where o: "snd (calculate_points forwards_AB) = Inr out"
    "map_of (columns out) ''Points'' = Some (Int64 ps)"
    "length ps = length (index forwards_AB)"
    "\<forall>i < length (index forwards_AB). ps ! i = [5, 5] ! i + [3, 3] ! i
        \<and> (- (2 ^ 63) \<le> sint ([5, 5 :: i64] ! i) + sint ([3, 3 :: i64] ! i)
              \<and> sint ([5, 5 :: i64] ! i) + sint ([3, 3 :: i64] ! i) < 2 ^ 63
            \<longrightarrow> sint (ps ! i) = sint ([5, 5 :: i64] ! i) + sint ([3, 3 :: i64] ! i))"
    by (auto simp: forwards_AB_def)
  have len: "length (index forwards_AB) = 2" by (simp add: forwards_AB_def)
  show ?thesis
    using o rng unfolding len by blast
qed

text \<open>
  C2 as stated fails where the sum leaves \<^verbatim>\<open>int64\<close>: goals and assists of \<open>2\<^sup>6\<^sup>2\<close> each
  give \<open>-2\<^sup>6\<^sup>3\<close> points, not \<open>2\<^sup>6\<^sup>3\<close>.
\<close>

theorem calculate_points_overflow_counterexample:
  "snd (calculate_points skaters_big) =
     Inr \<lparr>index = [0],
          columns = [(''Player Name'', Object [''A'']),
                     (''Points'', Int64 [9223372036854775808])]\<rparr>
   \<and> sint (9223372036854775808 :: i64) = - 9223372036854775808
   \<and> sint (4611686018427387904 :: i64) + sint (4611686018427387904 :: i64)
       = 9223372036854775808"
  by (simp add: calculate_points_def skaters_big_def getitem_def setitem_def
      getitem_list_def)

section \<open>Rounding and division\<close>

lemma pow2_powi: "pow2 k = 2 powi k"
  by (simp add: pow2_def power_int_def inverse_eq_divide power_one_over)

lemma pow2_pos [simp]: "0 < pow2 k"
  by (simp add: pow2_powi)

lemma pow2_nonneg [simp]: "0 \<le> pow2 k"
  by (rule less_imp_le) simp

lemma pow2_neq0 [simp]: "pow2 k \<noteq> 0"
  using pow2_pos [of k] by (simp del: pow2_pos)

lemma pow2_mono: "i \<le> j \<Longrightarrow> pow2 i \<le> pow2 j"
  by (simp add: pow2_powi power_int_increasing)

lemma pow2_diff: "pow2 (i - j) = pow2 i / pow2 j"
  by (simp add: pow2_powi power_int_diff)

lemma pow2_nat: "0 \<le> k \<Longrightarrow> pow2 k = 2 ^ nat k"
  by (simp add: pow2_def)

lemma ilog2_le:
  assumes "0 < a"
  shows "pow2 (ilog2 a) \<le> a"
proof -
  obtain p q where pq: "quotient_of a = (p, q)" by (cases "quotient_of a")
  have q: "0 < q" using pq by (rule quotient_of_denom_pos)
  have a: "a = of_int p / of_int q" using pq by (rule quotient_of_div)
  have p: "0 < p"
    using assms q unfolding a by (simp add: zero_less_divide_iff)
  let ?d = "bitlen p - bitlen q"
  have bp: "1 \<le> bitlen p" and bq: "1 \<le> bitlen q"
    using p q by (simp_all add: bitlen_alt_def)
  have "(2::int) ^ nat (bitlen p - 1) \<le> p" using bitlen_bounds [OF p] by simp
  then have "(of_int ((2::int) ^ nat (bitlen p - 1)) :: rat) \<le> of_int p"
    by (simp only: of_int_le_iff)
  then have lo: "pow2 (bitlen p - 1) \<le> of_int p"
    using bp by (simp add: pow2_nat)
  have "q < 2 ^ nat (bitlen q)" using bitlen_bounds [OF q] by simp
  then have "(of_int q :: rat) < of_int ((2::int) ^ nat (bitlen q))"
    by (simp only: of_int_less_iff)
  then have hi: "of_int q \<le> pow2 (bitlen q)"
    using bq by (simp add: pow2_nat)
  have "pow2 (?d - 1) = pow2 (bitlen p - 1) / pow2 (bitlen q)"
    using pow2_diff [of "bitlen p - 1" "bitlen q"] by (simp add: algebra_simps)
  also have "\<dots> \<le> of_int p / pow2 (bitlen q)"
    using lo by (rule divide_right_mono) (simp add: less_imp_le)
  also have "\<dots> \<le> of_int p / of_int q"
    using hi p q by (intro divide_left_mono) simp_all
  finally have "pow2 (?d - 1) \<le> a" by (simp add: a)
  then show ?thesis
    using pq by (simp add: ilog2_def Let_def)
qed

lemma round_half_even_ge: "\<lfloor>x\<rfloor> \<le> round_half_even x"
  by (simp add: round_half_even_def Let_def)

lemma round_half_even_le: "of_int (round_half_even x) \<le> x + 1"
  by (simp add: round_half_even_def Let_def) linarith

text \<open>The quantum of a positive value is at most \<open>2\<^sup>-\<^sup>5\<^sup>2\<close> of it, or of \<open>2\<^sup>-\<^sup>1\<^sup>0\<^sup>2\<^sup>2\<close>.\<close>

lemma quantum_le:
  assumes "0 < a"
  shows "pow2 (max (ilog2 a) (- 1022) - 52) * 2 ^ 52 \<le> max a (pow2 (- 1022))"
proof -
  have "pow2 (max (ilog2 a) (- 1022)) \<le> max a (pow2 (- 1022))"
  proof (cases "- 1022 \<le> ilog2 a")
    case True
    then have "pow2 (max (ilog2 a) (- 1022)) = pow2 (ilog2 a)" by (simp add: max_def)
    also have "\<dots> \<le> a" by (rule ilog2_le [OF assms])
    finally show ?thesis by simp
  next
    case False
    then have "pow2 (max (ilog2 a) (- 1022)) = pow2 (- 1022)" by (simp add: max_def)
    then show ?thesis by simp
  qed
  then show ?thesis
    using pow2_diff [of "max (ilog2 a) (- 1022)" 52] by (simp add: pow2_nat)
qed

text \<open>The rounded magnitude lies within one quantum of the exact one.\<close>

lemma rounded_magnitude:
  assumes "0 < q"
  shows "of_int (round_half_even (a / q)) * q \<le> a + q"
    and "a - q < of_int (round_half_even (a / q)) * q"
proof -
  have "of_int (round_half_even (a / q)) * q \<le> (a / q + 1) * q"
    using round_half_even_le [of "a / q"] assms by (intro mult_right_mono) simp_all
  also have "\<dots> = a + q" using assms by (simp add: algebra_simps)
  finally show "of_int (round_half_even (a / q)) * q \<le> a + q" .
  have "a / q - 1 < of_int \<lfloor>a / q\<rfloor>" by linarith
  also have "\<dots> \<le> of_int (round_half_even (a / q))"
    using round_half_even_ge [of "a / q"] by (simp only: of_int_le_iff)
  finally have "(a / q - 1) * q < of_int (round_half_even (a / q)) * q"
    using assms by (simp only: mult_less_cancel_right_pos)
  moreover have "(a / q - 1) * q = a - q" using assms by (simp add: algebra_simps)
  ultimately show "a - q < of_int (round_half_even (a / q)) * q" by simp
qed

text \<open>Rounding never yields NaN, and no infinity below \<open>2\<^sup>1\<^sup>0\<^sup>0\<^sup>0\<close>.\<close>

lemma rnd64_not_nan [simp]: "\<not> is_nan (rnd64 x)"
  by (simp add: rnd64_def Let_def)

lemma rnd64_not_inf:
  assumes "\<bar>x\<bar> \<le> 2 ^ 1000"
  shows "\<not> is_inf (rnd64 x)"
proof (cases "x = 0")
  case True
  then show ?thesis by (simp add: rnd64_def)
next
  case False
  define a where "a = \<bar>x\<bar>"
  define q where "q = pow2 (max (ilog2 a) (- 1022) - 52)"
  define m where "m = round_half_even (a / q)"
  define r where "r = of_int m * q"
  have a: "0 < a" "a \<le> 2 ^ 1000" using False assms by (simp_all add: a_def)
  have q0: "0 < q" by (simp add: q_def)
  have "q * 1 \<le> q * 2 ^ 52" using q0 by (intro mult_left_mono) simp_all
  also have "\<dots> \<le> max a (pow2 (- 1022))" unfolding q_def by (rule quantum_le [OF a(1)])
  also have "\<dots> \<le> 2 ^ 1000"
  proof -
    have "pow2 (- 1022) \<le> pow2 1000" by (rule pow2_mono) simp
    then have "pow2 (- 1022) \<le> 2 ^ 1000" by (simp add: pow2_nat)
    with a(2) show ?thesis by simp
  qed
  finally have q: "q \<le> 2 ^ 1000" by simp
  have "r \<le> a + q" unfolding r_def m_def by (rule rounded_magnitude(1) [OF q0])
  also have "\<dots> \<le> 2 ^ 1000 + 2 ^ 1000" using a(2) q by linarith
  also have "\<dots> < pow2 1024" by (simp add: pow2_nat)
  finally have r: "\<not> pow2 1024 \<le> r" by simp
  have "rnd64 x =
          (if pow2 1024 \<le> r then (if 0 < x then PInf else NInf)
           else if m = 0 then (if 0 < x then Fin 0 else NegZero)
           else Fin (if 0 < x then r else - r))"
    using False unfolding rnd64_def Let_def r_def m_def q_def a_def by (rule if_not_P)
  then show ?thesis using r by simp
qed

text \<open>An integer of 64 bits other than 0 converts to a finite value of the same sign,
  between half and twice its magnitude.\<close>

lemma rnd64_of_int:
  assumes "1 \<le> \<bar>x\<bar>" and "\<bar>x\<bar> \<le> 2 ^ 63"
  shows "\<exists>r. rnd64 x = Fin r \<and> (0 < x \<longrightarrow> 0 < r) \<and> (x < 0 \<longrightarrow> r < 0)
           \<and> 1 \<le> 2 * \<bar>r\<bar> \<and> \<bar>r\<bar> \<le> 2 ^ 64"
proof -
  define a where "a = \<bar>x\<bar>"
  define q where "q = pow2 (max (ilog2 a) (- 1022) - 52)"
  define m where "m = round_half_even (a / q)"
  define r where "r = of_int m * q"
  have a: "0 < a" "1 \<le> a" "a \<le> 2 ^ 63" using assms by (simp_all add: a_def)
  have q0: "0 < q" by (simp add: q_def)
  have "pow2 (- 1022) \<le> pow2 0" by (rule pow2_mono) simp
  then have "pow2 (- 1022) \<le> a" using a(2) by (simp add: pow2_nat)
  then have "max a (pow2 (- 1022)) = a" by simp
  then have q52: "q * 2 ^ 52 \<le> a"
    using quantum_le [OF a(1)] by (simp add: q_def)
  have "q * 2 \<le> q * 2 ^ 52" using q0 by (intro mult_left_mono) simp_all
  with q52 have qa: "2 * q \<le> a" by simp
  have hi: "r \<le> a + q" and lo: "a - q < r"
    unfolding r_def m_def by (rule rounded_magnitude [OF q0])+
  have rhalf: "1 \<le> 2 * r" using lo qa a(2) by linarith
  then have rpos: "0 < r" by linarith
  have rle: "r \<le> 2 ^ 64" using hi qa a(3) by simp
  have "r < pow2 1024"
  proof -
    have "(2::rat) ^ 64 < 2 ^ 1024" by simp
    with rle show ?thesis by (simp add: pow2_nat)
  qed
  then have r: "\<not> pow2 1024 \<le> r" by simp
  have m0: "m \<noteq> 0" using rpos by (auto simp: r_def)
  have x0: "x \<noteq> 0" using assms(1) by auto
  have "rnd64 x =
          (if pow2 1024 \<le> r then (if 0 < x then PInf else NInf)
           else if m = 0 then (if 0 < x then Fin 0 else NegZero)
           else Fin (if 0 < x then r else - r))"
    using x0 unfolding rnd64_def Let_def r_def m_def q_def a_def by (rule if_not_P)
  then have "rnd64 x = Fin (if 0 < x then r else - r)"
    using r m0 by simp
  then show ?thesis
    using rpos rhalf rle by auto
qed

lemma f64_of_i64_zero [simp]: "f64_of_i64 0 = Fin 0"
  by (simp add: f64_of_i64_def rnd64_def)

lemma f64_of_i64_nonzero:
  assumes "w \<noteq> 0"
  shows "\<exists>r. f64_of_i64 w = Fin r \<and> (0 < sint w \<longrightarrow> 0 < r) \<and> (\<not> 0 < sint w \<longrightarrow> r < 0)
           \<and> 1 \<le> 2 * \<bar>r\<bar> \<and> \<bar>r\<bar> \<le> 2 ^ 64"
proof -
  let ?x = "of_int (sint w) :: rat"
  have nz: "sint w \<noteq> 0" using assms by (simp add: signed_eq_0_iff)
  have "- (2 ^ 63) \<le> sint w" "sint w < 2 ^ 63"
    using sint_ge [of w] sint_lt [of w] by simp_all
  then have "\<bar>sint w\<bar> \<le> 2 ^ 63" by linarith
  then have "(of_int \<bar>sint w\<bar> :: rat) \<le> of_int (2 ^ 63)" by (simp only: of_int_le_iff)
  then have hi: "\<bar>?x\<bar> \<le> 2 ^ 63" by (simp only: of_int_abs of_int_power of_int_numeral)
  have "1 \<le> \<bar>sint w\<bar>" using nz by linarith
  then have "(of_int 1 :: rat) \<le> of_int \<bar>sint w\<bar>" by (simp only: of_int_le_iff)
  then have lo: "1 \<le> \<bar>?x\<bar>" by (simp only: of_int_abs of_int_1)
  from rnd64_of_int [OF lo hi] obtain r where
    r: "rnd64 ?x = Fin r" "0 < ?x \<longrightarrow> 0 < r" "?x < 0 \<longrightarrow> r < 0"
      "1 \<le> 2 * \<bar>r\<bar>" "\<bar>r\<bar> \<le> 2 ^ 64" by blast
  have neg: "?x < 0" if "\<not> 0 < sint w"
  proof -
    from that nz have "sint w < 0" by linarith
    then show ?thesis by (simp only: of_int_less_0_iff)
  qed
  have pos: "0 < ?x" if "0 < sint w"
    using that by (simp only: of_int_0_less_iff)
  have "f64_of_i64 w = Fin r" using r(1) by (simp only: f64_of_i64_def)
  moreover have "0 < sint w \<longrightarrow> 0 < r" using r(2) pos by blast
  moreover have "\<not> 0 < sint w \<longrightarrow> r < 0" using r(3) neg by blast
  ultimately show ?thesis using r(4,5) by blast
qed

text \<open>Dividing by an integer zero.\<close>

lemma f64_div_by_zero:
  "f64_div (f64_of_i64 sv) (Fin 0) =
     (if sv = 0 then NaN else if 0 < sint sv then PInf else NInf)"
proof (cases "sv = 0")
  case True
  then show ?thesis by (simp add: f64_div_def)
next
  case False
  from f64_of_i64_nonzero [OF False] obtain r where
    r: "f64_of_i64 sv = Fin r" "0 < sint sv \<longrightarrow> 0 < r" "\<not> 0 < sint sv \<longrightarrow> r < 0" by blast
  show ?thesis
    using False r by (auto simp: f64_div_def signed_inf_def)
qed

text \<open>Dividing by an integer other than zero gives a finite value or a zero.\<close>

lemma f64_div_by_nonzero:
  assumes "sa \<noteq> 0"
  shows "\<not> is_nan (f64_div (f64_of_i64 sv) (f64_of_i64 sa))"
    and "\<not> is_inf (f64_div (f64_of_i64 sv) (f64_of_i64 sa))"
proof -
  from f64_of_i64_nonzero [OF assms] obtain b where
    b: "f64_of_i64 sa = Fin b" "1 \<le> 2 * \<bar>b\<bar>" by blast
  then have b0: "b \<noteq> 0" by auto
  obtain a where a: "f64_of_i64 sv = Fin a" "\<bar>a\<bar> \<le> 2 ^ 64"
  proof (cases "sv = 0")
    case True
    then show ?thesis using that [of 0] by simp
  next
    case False
    from f64_of_i64_nonzero [OF False] show ?thesis using that by blast
  qed
  have "\<bar>a / b\<bar> \<le> 2 ^ 1000"
  proof -
    have "\<bar>a\<bar> \<le> 2 ^ 64 * (2 * \<bar>b\<bar>)"
    proof -
      have "\<bar>a\<bar> * 1 \<le> 2 ^ 64 * (2 * \<bar>b\<bar>)"
        using a(2) b(2) by (intro mult_mono) simp_all
      then show ?thesis by simp
    qed
    then have "\<bar>a\<bar> / \<bar>b\<bar> \<le> 2 ^ 65"
      using b0 by (simp add: pos_divide_le_eq algebra_simps)
    moreover have "(2::rat) ^ 65 \<le> 2 ^ 1000" by simp
    ultimately show ?thesis by (simp only: abs_divide)
  qed
  then have fin: "\<not> is_inf (rnd64 (a / b))" by (rule rnd64_not_inf)
  have d: "f64_div (Fin a) (Fin b) =
      (if a = 0 then signed_zero ((a < 0) \<noteq> (b < 0)) else rnd64 (a / b))"
    using b0 by (simp add: f64_div_def)
  show "\<not> is_nan (f64_div (f64_of_i64 sv) (f64_of_i64 sa))"
    unfolding a(1) b(1) d by (simp add: signed_zero_def)
  show "\<not> is_inf (f64_div (f64_of_i64 sv) (f64_of_i64 sa))"
    unfolding a(1) b(1) d using fin by (simp add: signed_zero_def)
qed

section \<open>Save percentage\<close>

lemma calculate_save_percentage_ok:
  assumes "map_of (columns df) ''SV'' = Some sv" and "map_of (columns df) ''SA'' = Some sa"
    and "series_truediv sv sa = Inr p" and "map_of (columns df) ''Player Name'' = Some nm"
  shows "calculate_save_percentage df =
           (setitem df ''SavePercentage'' p,
            Inr \<lparr>index = index df,
                 columns = [(''Player Name'', nm), (''SavePercentage'', p)]\<rparr>)"
proof -
  have "getitem_list (setitem df ''SavePercentage'' p) [''Player Name'', ''SavePercentage''] =
          Inr \<lparr>index = index df, columns = [(''Player Name'', nm), (''SavePercentage'', p)]\<rparr>"
    using getitem_list_pair [of "setitem df ''SavePercentage'' p" "''Player Name''" nm
        "''SavePercentage''" p] assms(4)
    by (simp add: map_of_setitem)
  then show ?thesis
    using assms(1-3) by (simp add: calculate_save_percentage_def getitem_Some)
qed

lemma calculate_save_percentage_int:
  assumes "map_of (columns df) ''SV'' = Some (Int64 svs)"
    and "map_of (columns df) ''SA'' = Some (Int64 sas)"
    and "map_of (columns df) ''Player Name'' = Some nm"
  shows "calculate_save_percentage df =
           (setitem df ''SavePercentage'' (Float64 (save_pct svs sas)),
            Inr \<lparr>index = index df,
                 columns = [(''Player Name'', nm),
                            (''SavePercentage'', Float64 (save_pct svs sas))]\<rparr>)"
  by (rule calculate_save_percentage_ok [OF assms(1) assms(2) _ assms(3)])
     (simp add: series_truediv_def save_pct_def)

lemma save_pct_nth:
  assumes "i < length svs" and "i < length sas"
  shows "save_pct svs sas ! i = f64_div (f64_of_i64 (svs ! i)) (f64_of_i64 (sas ! i))"
  using assms by (simp add: save_pct_def)

lemma length_save_pct [simp]: "length (save_pct svs sas) = min (length svs) (length sas)"
  by (simp add: save_pct_def)

text \<open>
  C1, as the code has it. On a frame whose \<^verbatim>\<open>SV\<close> and \<^verbatim>\<open>SA\<close> columns are \<^verbatim>\<open>int64\<close> and that
  has a \<^verbatim>\<open>Player Name\<close> column, \<^verbatim>\<open>calculate_save_percentage\<close> does not raise, and for a
  goalie with no shots against the value it returns is NaN when the saves are 0 too,
  plus infinity when they are positive and minus infinity when they are negative; it is
  never 0 or 1. There is no other sentinel.
\<close>

theorem calculate_save_percentage_no_shots:
  assumes "wf_frame df"
    and "map_of (columns df) ''SV'' = Some (Int64 svs)"
    and "map_of (columns df) ''SA'' = Some (Int64 sas)"
    and "map_of (columns df) ''Player Name'' = Some nm"
  shows "\<exists>out pct. snd (calculate_save_percentage df) = Inr out
           \<and> map_of (columns out) ''SavePercentage'' = Some (Float64 pct)
           \<and> length pct = length (index df)
           \<and> (\<forall>i < length (index df). sas ! i = 0 \<longrightarrow>
                 pct ! i = (if svs ! i = 0 then NaN
                            else if 0 < sint (svs ! i) then PInf else NInf)
                 \<and> pct ! i \<noteq> Fin 0 \<and> pct ! i \<noteq> NegZero \<and> pct ! i \<noteq> Fin 1)"
proof -
  let ?pct = "save_pct svs sas"
  let ?out = "\<lparr>index = index df,
      columns = [(''Player Name'', nm), (''SavePercentage'', Float64 ?pct)]\<rparr>"
  have lv: "length svs = length (index df)" and la: "length sas = length (index df)"
    using wf_frame_len [OF assms(1) assms(2)] wf_frame_len [OF assms(1) assms(3)] by simp_all
  have "snd (calculate_save_percentage df) = Inr ?out"
    by (simp add: calculate_save_percentage_int [OF assms(2-4)])
  moreover have "map_of (columns ?out) ''SavePercentage'' = Some (Float64 ?pct)"
    by simp
  moreover have "length ?pct = length (index df)"
    using lv la by simp
  moreover have "?pct ! i = (if svs ! i = 0 then NaN
                             else if 0 < sint (svs ! i) then PInf else NInf)
      \<and> ?pct ! i \<noteq> Fin 0 \<and> ?pct ! i \<noteq> NegZero \<and> ?pct ! i \<noteq> Fin 1"
    if "i < length (index df)" and "sas ! i = 0" for i
  proof -
    have "?pct ! i = f64_div (f64_of_i64 (svs ! i)) (Fin 0)"
      using that lv la by (simp add: save_pct_nth)
    then show ?thesis by (simp add: f64_div_by_zero)
  qed
  ultimately show ?thesis by blast
qed

theorem calculate_save_percentage_no_shots_witness:
  "\<exists>out pct. snd (calculate_save_percentage goalies_idle) = Inr out
     \<and> map_of (columns out) ''SavePercentage'' = Some (Float64 pct)
     \<and> length pct = 2 \<and> pct ! 0 = PInf \<and> pct ! 1 = NaN"
proof -
  have wf: "wf_frame goalies_idle"
    by (simp add: wf_frame_def goalies_idle_def)
  from calculate_save_percentage_no_shots [OF wf, of "[5, 0]" "[0, 0]" "Object [''B'', ''C'']"]
  obtain out pct where o: "snd (calculate_save_percentage goalies_idle) = Inr out"
    "map_of (columns out) ''SavePercentage'' = Some (Float64 pct)"
    "length pct = length (index goalies_idle)"
    "\<forall>i < length (index goalies_idle). [0, 0 :: i64] ! i = 0 \<longrightarrow>
        pct ! i = (if [5, 0 :: i64] ! i = 0 then NaN
                   else if 0 < sint ([5, 0 :: i64] ! i) then PInf else NInf)
        \<and> pct ! i \<noteq> Fin 0 \<and> pct ! i \<noteq> NegZero \<and> pct ! i \<noteq> Fin 1"
    by (auto simp: goalies_idle_def)
  have len: "length (index goalies_idle) = 2" by (simp add: goalies_idle_def)
  from o(4) have "pct ! 0 = PInf" "pct ! 1 = NaN"
    unfolding len by (auto dest!: spec [of _ 0] spec [of _ 1])
  with o(1-3) len show ?thesis by auto
qed

text \<open>
  C1 as stated fails: the goalie with 5 saves and no shots gets plus infinity, the one
  with neither saves nor shots gets NaN, and both reach the caller in the returned frame.
\<close>

theorem calculate_save_percentage_counterexample:
  "snd (calculate_save_percentage goalies_idle) =
     Inr \<lparr>index = [0, 1],
          columns = [(''Player Name'', Object [''B'', ''C'']),
                     (''SavePercentage'', Float64 [PInf, NaN])]\<rparr>"
proof -
  have "snd (calculate_save_percentage goalies_idle) =
     Inr \<lparr>index = [0, 1],
          columns = [(''Player Name'', Object [''B'', ''C'']),
                     (''SavePercentage'', Float64 (save_pct [5, 0] [0, 0]))]\<rparr>"
    by (subst calculate_save_percentage_int [of _ "[5, 0]" "[0, 0]" "Object [''B'', ''C'']"])
       (simp_all add: goalies_idle_def)
  moreover have "save_pct [5, 0] [0, 0] = [PInf, NaN]"
    using f64_div_by_zero [of 5] f64_div_by_zero [of 0] by (simp add: save_pct_def)
  ultimately show ?thesis by simp
qed

section \<open>Sorting and truncation\<close>

lemma length_argsort [simp]: "length (argsort ks) = length ks"
  by (simp add: argsort_def)

lemma mset_argsort: "mset (argsort ks) = mset [0..<length ks]"
  by (simp add: argsort_def)


lemma length_take_pos [simp]: "length (take_pos indexer xs) = length indexer"
  by (simp add: take_pos_def)

lemma mset_take_pos_perm:
  assumes "mset perm = mset [0..<length xs]"
  shows "mset (take_pos perm xs) = mset xs"
proof -
  have "mset (map (\<lambda>i. xs ! i) perm) = image_mset (\<lambda>i. xs ! i) (mset perm)" by simp
  also have "\<dots> = image_mset (\<lambda>i. xs ! i) (mset [0..<length xs])" by (simp only: assms)
  also have "\<dots> = mset (map (\<lambda>i. xs ! i) [0..<length xs])" by simp
  also have "\<dots> = mset xs" by (simp only: map_nth)
  finally show ?thesis by (simp add: take_pos_def)
qed

lemma nargsort_desc_split:
  "nargsort_desc isna key items = ranked_idx isna key items @ missing_idx isna items"
  by (simp add: nargsort_desc_def ranked_idx_def present_idx_def missing_idx_def Let_def)

lemma mset_ranked_idx: "mset (ranked_idx isna key items) = mset (present_idx isna items)"
proof -
  let ?nn = "rev (present_idx isna items)"
  have "mset (take_pos (argsort (map (\<lambda>i. key (items ! i)) ?nn)) ?nn) = mset ?nn"
    by (rule mset_take_pos_perm) (simp add: mset_argsort)
  then show ?thesis by (simp add: ranked_idx_def)
qed

lemma mset_filter_both: "mset (filter (\<lambda>x. \<not> Q x) xs) + mset (filter Q xs) = mset xs"
  by (induction xs) auto

lemma mset_nargsort_desc: "mset (nargsort_desc isna key items) = mset [0..<length items]"
proof -
  have "mset (present_idx isna items) + mset (missing_idx isna items) = mset [0..<length items]"
    unfolding present_idx_def missing_idx_def by (rule mset_filter_both)
  then show ?thesis
    by (simp add: nargsort_desc_split mset_ranked_idx)
qed

lemma length_nargsort_desc [simp]: "length (nargsort_desc isna key items) = length items"
  using arg_cong [OF mset_nargsort_desc [of isna key items], of size] by simp

lemma set_nargsort_desc: "set (nargsort_desc isna key items) = {0..<length items}"
  using arg_cong [OF mset_nargsort_desc [of isna key items], of set_mset] by simp

lemma length_series_argsort_desc [simp]: "length (series_argsort_desc s) = series_len s"
  by (cases s) simp_all


lemma index_take_rows [simp]: "index (take_rows df indexer) = take_pos indexer (index df)"
  by (simp add: take_rows_def)

lemma columns_take_rows:
  "columns (take_rows df indexer) =
     map (\<lambda>(c, s). (c, series_map (take_pos indexer) (take_pos indexer) (take_pos indexer) s))
       (columns df)"
  by (simp add: take_rows_def)

lemma map_fst_columns_map [simp]:
  "map fst (map (\<lambda>(c, s). (c, f s)) cols) = map fst cols"
  by (induction cols) auto

lemma series_len_take [simp]:
  "series_len (series_map (take k) (take k) (take k) s) = min k (series_len s)"
  by (cases s) simp_all

lemma series_len_take_pos [simp]:
  "series_len (series_map (take_pos indexer) (take_pos indexer) (take_pos indexer) s) =
     length indexer"
  by (cases s) simp_all

lemma list_all_columns_map:
  "list_all P (map (\<lambda>(c, s). (c, f s)) cols) = list_all (\<lambda>(c, s). P (c, f s)) cols"
  by (induction cols) auto

lemma map_of_columns_map:
  "map_of (map (\<lambda>(c, s). (c, f s)) cols) c = map_option f (map_of cols c)"
  by (induction cols) auto

lemma wf_frame_take_rows:
  assumes "wf_frame df"
  shows "wf_frame (take_rows df indexer)"
proof -
  have "distinct (map fst (columns (take_rows df indexer)))"
    using assms unfolding columns_take_rows by (simp only: map_fst_columns_map wf_frame_def)
  moreover have "list_all (\<lambda>cs. series_len (snd cs) = length (index (take_rows df indexer)))
      (columns (take_rows df indexer))"
    unfolding columns_take_rows list_all_columns_map by (simp add: list_all_iff split_def)
  ultimately show ?thesis by (simp only: wf_frame_def)
qed

lemma slice_stop_le: "slice_stop len n \<le> len"
  by (simp add: slice_stop_def)

lemma index_head: "index (head df n) = take (slice_stop (length (index df)) n) (index df)"
  by (simp add: head_def Let_def)

lemma length_index_head:
  "length (index (head df n)) = slice_stop (length (index df)) n"
  using slice_stop_le [of "length (index df)" n] by (simp add: index_head)

lemma columns_head:
  "columns (head df n) =
     map (\<lambda>(c, s). (c, series_map (take (slice_stop (length (index df)) n))
                          (take (slice_stop (length (index df)) n))
                          (take (slice_stop (length (index df)) n)) s)) (columns df)"
  by (simp add: head_def Let_def)

lemma wf_frame_head:
  assumes "wf_frame df"
  shows "wf_frame (head df n)"
proof -
  have "distinct (map fst (columns (head df n)))"
    using assms unfolding columns_head by (simp only: map_fst_columns_map wf_frame_def)
  moreover have "list_all (\<lambda>cs. series_len (snd cs) = length (index (head df n)))
      (columns (head df n))"
    using assms slice_stop_le [of "length (index df)" n]
    unfolding columns_head list_all_columns_map length_index_head
    by (auto simp: wf_frame_def list_all_iff)
  ultimately show ?thesis by (simp only: wf_frame_def)
qed

lemma sort_values_desc_Some:
  assumes "map_of (columns df) by = Some k"
  shows "sort_values_desc df by = Inr (take_rows df (series_argsort_desc k))"
  using assms by (simp add: sort_values_desc_def getitem_Some)

lemma top_players_by_points_Some:
  assumes "map_of (columns df) ''Points'' = Some k"
  shows "top_players_by_points df n = Inr (head (take_rows df (series_argsort_desc k)) n)"
  by (simp add: top_players_by_points_def sort_values_desc_Some [OF assms])

lemma top_goalies_by_save_percentage_Some:
  assumes "map_of (columns df) ''SavePercentage'' = Some k"
  shows "top_goalies_by_save_percentage df n =
           Inr (head (take_rows df (series_argsort_desc k)) n)"
  by (simp add: top_goalies_by_save_percentage_def sort_values_desc_Some [OF assms])

lemma length_ranking:
  assumes "wf_frame df" and "map_of (columns df) by = Some k"
  shows "length (index (head (take_rows df (series_argsort_desc k)) n)) =
           slice_stop (length (index df)) n"
  using wf_frame_len [OF assms] by (simp add: length_index_head)

section \<open>The length of a ranking\<close>

text \<open>
  C3, as the code has it. On a frame that has the column ranked by (\<^verbatim>\<open>Points\<close>, or
  \<^verbatim>\<open>SavePercentage\<close>), the two ranking functions return a frame, of \<open>min n |input|\<close> rows
  when \<open>n \<ge> 0\<close> (none when \<open>n = 0\<close>), and of all rows but the last \<open>-n\<close> when \<open>n < 0\<close>,
  which is no row only if \<open>-n \<ge> |input|\<close>.
\<close>

theorem top_n_length:
  assumes "wf_frame skaters" and "map_of (columns skaters) ''Points'' = Some kp"
    and "wf_frame goalies" and "map_of (columns goalies) ''SavePercentage'' = Some kg"
  shows "(\<exists>out. top_players_by_points skaters n = Inr out \<and> wf_frame out
            \<and> length (index out) =
                (if 0 \<le> n then min (nat n) (length (index skaters))
                 else length (index skaters) - nat (- n)))
       \<and> (\<exists>out. top_goalies_by_save_percentage goalies n = Inr out \<and> wf_frame out
            \<and> length (index out) =
                (if 0 \<le> n then min (nat n) (length (index goalies))
                 else length (index goalies) - nat (- n)))"
proof -
  have "wf_frame (head (take_rows skaters (series_argsort_desc kp)) n)"
    and "wf_frame (head (take_rows goalies (series_argsort_desc kg)) n)"
    using assms(1,3) by (simp_all add: wf_frame_head wf_frame_take_rows)
  moreover have "length (index (head (take_rows skaters (series_argsort_desc kp)) n)) =
      slice_stop (length (index skaters)) n"
    by (rule length_ranking [OF assms(1,2)])
  moreover have "length (index (head (take_rows goalies (series_argsort_desc kg)) n)) =
      slice_stop (length (index goalies)) n"
    by (rule length_ranking [OF assms(3,4)])
  ultimately show ?thesis
    by (simp add: top_players_by_points_Some [OF assms(2)]
        top_goalies_by_save_percentage_Some [OF assms(4)] slice_stop_def)
qed

theorem top_n_length_witness:
  "(\<exists>out. top_players_by_points skaters_pts 2 = Inr out \<and> wf_frame out
       \<and> length (index out) = 2)
   \<and> (\<exists>out. top_goalies_by_save_percentage goalies_pct 2 = Inr out \<and> wf_frame out
       \<and> length (index out) = 2)"
proof -
  have wf: "wf_frame skaters_pts" "wf_frame goalies_pct"
    by (simp_all add: wf_frame_def skaters_pts_def goalies_pct_def)
  have c: "map_of (columns skaters_pts) ''Points'' = Some (Int64 [8, 12, 8])"
    "map_of (columns goalies_pct) ''SavePercentage'' = Some (Float64 [Fin (1 / 2), NaN, Fin 1])"
    by (simp_all add: skaters_pts_def goalies_pct_def)
  have l: "length (index skaters_pts) = 3" "length (index goalies_pct) = 3"
    by (simp_all add: skaters_pts_def goalies_pct_def)
  show ?thesis
    using top_n_length [OF wf(1) c(1) wf(2) c(2), of 2] by (simp add: l)
qed

text \<open>
  C3 as stated fails for a negative \<open>n\<close>: \<^verbatim>\<open>head(-1)\<close> of three ranked skaters is the first
  two of them, not an empty frame.
\<close>

theorem top_n_negative_counterexample:
  "top_players_by_points skaters_pts (- 1) =
     Inr \<lparr>index = [1, 0],
          columns = [(''Player Name'', Object [''C'', ''B'']), (''Points'', Int64 [12, 8])]\<rparr>"
  by code_simp

section \<open>What the calls do to their argument\<close>

lemma calculate_points_input:
  "fst (calculate_points df) = df \<or> (\<exists>p. fst (calculate_points df) = setitem df ''Points'' p)"
  by (auto simp: calculate_points_def Let_def split: sum.splits)

lemma calculate_save_percentage_input:
  "fst (calculate_save_percentage df) = df
   \<or> (\<exists>p. fst (calculate_save_percentage df) = setitem df ''SavePercentage'' p)"
  by (auto simp: calculate_save_percentage_def Let_def split: sum.splits)

lemma calculate_points_assigns:
  assumes "map_of (columns df) ''G'' = Some g" and "map_of (columns df) ''A'' = Some a"
    and "series_add g a = Inr p"
  shows "fst (calculate_points df) = setitem df ''Points'' p"
  using assms by (simp add: calculate_points_def getitem_Some Let_def)

lemma calculate_save_percentage_assigns:
  assumes "map_of (columns df) ''SV'' = Some sv" and "map_of (columns df) ''SA'' = Some sa"
    and "series_truediv sv sa = Inr p"
  shows "fst (calculate_save_percentage df) = setitem df ''SavePercentage'' p"
  using assms by (simp add: calculate_save_percentage_def getitem_Some Let_def)

text \<open>The functions on references against the functions on frames.\<close>

lemma filter_skaters_by_position_on_eq:
  "filter_skaters_by_position_on st r position =
     (case filter_skaters_by_position (st ! r) position of
        Inl e \<Rightarrow> (st, Inl e)
      | Inr out \<Rightarrow> (st @ [out], Inr (length st)))"
  by (simp add: filter_skaters_by_position_on_def filter_skaters_by_position_def new_frame_def
      split: sum.splits)

lemma top_players_by_points_on_eq:
  "top_players_by_points_on st r n =
     (case sort_values_desc (st ! r) ''Points'' of
        Inl e \<Rightarrow> (st, Inl e)
      | Inr sorted_df \<Rightarrow> (st @ [sorted_df, head sorted_df n], Inr (Suc (length st))))"
  by (simp add: top_players_by_points_on_def new_frame_def split: sum.splits)

lemma calculate_points_on_eq:
  assumes "r < length st"
  shows "calculate_points_on st r =
     (case calculate_points (st ! r) of
        (df', Inl e) \<Rightarrow> (st[r := df'], Inl e)
      | (df', Inr out) \<Rightarrow> (st[r := df'] @ [out], Inr (length st)))"
  using assms
  by (simp add: calculate_points_on_def calculate_points_def df_setitem_def new_frame_def Let_def
      split: sum.splits)

lemma calculate_save_percentage_on_eq:
  assumes "r < length st"
  shows "calculate_save_percentage_on st r =
     (case calculate_save_percentage (st ! r) of
        (df', Inl e) \<Rightarrow> (st[r := df'], Inl e)
      | (df', Inr out) \<Rightarrow> (st[r := df'] @ [out], Inr (length st)))"
  using assms
  by (simp add: calculate_save_percentage_on_def calculate_save_percentage_def df_setitem_def
      new_frame_def Let_def split: sum.splits)

lemma filter_skaters_by_position_on_reads:
  "take (length st) (fst (filter_skaters_by_position_on st r position)) = st"
  "snd (filter_skaters_by_position_on st r position) = Inr ref \<Longrightarrow>
     length st \<le> ref \<and>
     filter_skaters_by_position (st ! r) position =
       Inr (fst (filter_skaters_by_position_on st r position) ! ref)"
  by (auto simp: filter_skaters_by_position_on_eq split: sum.splits)

lemma top_players_by_points_on_reads:
  "take (length st) (fst (top_players_by_points_on st r n)) = st"
  "snd (top_players_by_points_on st r n) = Inr ref \<Longrightarrow>
     length st \<le> ref \<and>
     top_players_by_points (st ! r) n = Inr (fst (top_players_by_points_on st r n) ! ref)"
  by (auto simp: top_players_by_points_on_eq top_players_by_points_def nth_append
      split: sum.splits)

lemma calculate_points_on_writes:
  assumes "r < length st"
  shows "fst (calculate_points_on st r) ! r = fst (calculate_points (st ! r))"
    and "r' < length st \<Longrightarrow> r' \<noteq> r \<Longrightarrow> fst (calculate_points_on st r) ! r' = st ! r'"
    and "snd (calculate_points_on st r) = Inr ref \<Longrightarrow>
           length st \<le> ref \<and>
           snd (calculate_points (st ! r)) = Inr (fst (calculate_points_on st r) ! ref)"
  using assms
  by (auto simp: calculate_points_on_eq nth_append split: prod.splits sum.splits)

lemma calculate_save_percentage_on_writes:
  assumes "r < length st"
  shows "fst (calculate_save_percentage_on st r) ! r = fst (calculate_save_percentage (st ! r))"
    and "r' < length st \<Longrightarrow> r' \<noteq> r \<Longrightarrow> fst (calculate_save_percentage_on st r) ! r' = st ! r'"
    and "snd (calculate_save_percentage_on st r) = Inr ref \<Longrightarrow>
           length st \<le> ref \<and>
           snd (calculate_save_percentage (st ! r)) =
             Inr (fst (calculate_save_percentage_on st r) ! ref)"
  using assms
  by (auto simp: calculate_save_percentage_on_eq nth_append split: prod.splits sum.splits)

text \<open>
  C7, as the code has it. For a reference \<open>r\<close> to a frame in the store:
  \<^verbatim>\<open>filter_skaters_by_position\<close> and \<^verbatim>\<open>top_players_by_points\<close> leave every frame of the store
  as it is, and what they return is a frame that was not in the store before.
  \<^verbatim>\<open>calculate_points\<close> and \<^verbatim>\<open>calculate_save_percentage\<close> return such a new frame too, but
  whenever the two columns they read can be combined they assign the derived column
  \<^verbatim>\<open>Points\<close> (\<^verbatim>\<open>SavePercentage\<close>) into the frame they were given; its index, its other
  columns and every other frame of the store stay as they are.
\<close>

theorem calls_and_their_argument:
  assumes "r < length st"
  shows "take (length st) (fst (filter_skaters_by_position_on st r position)) = st
     \<and> (\<forall>ref. snd (filter_skaters_by_position_on st r position) = Inr ref \<longrightarrow>
            length st \<le> ref \<and>
            filter_skaters_by_position (st ! r) position =
              Inr (fst (filter_skaters_by_position_on st r position) ! ref))
     \<and> take (length st) (fst (top_players_by_points_on st r n)) = st
     \<and> (\<forall>ref. snd (top_players_by_points_on st r n) = Inr ref \<longrightarrow>
            length st \<le> ref \<and>
            top_players_by_points (st ! r) n = Inr (fst (top_players_by_points_on st r n) ! ref))
     \<and> (\<forall>g a p. map_of (columns (st ! r)) ''G'' = Some g \<and> map_of (columns (st ! r)) ''A'' = Some a
                  \<and> series_add g a = Inr p \<longrightarrow>
            fst (calculate_points_on st r) ! r = setitem (st ! r) ''Points'' p)
     \<and> (\<forall>sv sa p. map_of (columns (st ! r)) ''SV'' = Some sv
                  \<and> map_of (columns (st ! r)) ''SA'' = Some sa \<and> series_truediv sv sa = Inr p \<longrightarrow>
            fst (calculate_save_percentage_on st r) ! r = setitem (st ! r) ''SavePercentage'' p)
     \<and> (\<forall>ref. snd (calculate_points_on st r) = Inr ref \<longrightarrow>
            length st \<le> ref \<and>
            snd (calculate_points (st ! r)) = Inr (fst (calculate_points_on st r) ! ref))
     \<and> (\<forall>ref. snd (calculate_save_percentage_on st r) = Inr ref \<longrightarrow>
            length st \<le> ref \<and>
            snd (calculate_save_percentage (st ! r)) =
              Inr (fst (calculate_save_percentage_on st r) ! ref))
     \<and> (\<forall>r' < length st. r' \<noteq> r \<longrightarrow>
            fst (calculate_points_on st r) ! r' = st ! r'
            \<and> fst (calculate_save_percentage_on st r) ! r' = st ! r')
     \<and> index (fst (calculate_points_on st r) ! r) = index (st ! r)
     \<and> index (fst (calculate_save_percentage_on st r) ! r) = index (st ! r)
     \<and> (\<forall>c. c \<noteq> ''Points'' \<longrightarrow>
            map_of (columns (fst (calculate_points_on st r) ! r)) c =
            map_of (columns (st ! r)) c)
     \<and> (\<forall>c. c \<noteq> ''SavePercentage'' \<longrightarrow>
            map_of (columns (fst (calculate_save_percentage_on st r) ! r)) c =
            map_of (columns (st ! r)) c)"
proof -
  have p: "fst (calculate_points_on st r) ! r = fst (calculate_points (st ! r))"
    and s: "fst (calculate_save_percentage_on st r) ! r =
              fst (calculate_save_percentage (st ! r))"
    by (rule calculate_points_on_writes(1) [OF assms],
        rule calculate_save_percentage_on_writes(1) [OF assms])
  have ap: "fst (calculate_points (st ! r)) = setitem (st ! r) ''Points'' p"
    if "map_of (columns (st ! r)) ''G'' = Some g \<and> map_of (columns (st ! r)) ''A'' = Some a
          \<and> series_add g a = Inr p" for g a p
    using that by (intro calculate_points_assigns [of _ g a]) simp_all
  have as: "fst (calculate_save_percentage (st ! r)) = setitem (st ! r) ''SavePercentage'' p"
    if "map_of (columns (st ! r)) ''SV'' = Some sv \<and> map_of (columns (st ! r)) ''SA'' = Some sa
          \<and> series_truediv sv sa = Inr p" for sv sa p
    using that by (intro calculate_save_percentage_assigns [of _ sv sa]) simp_all
  have ixp: "index (fst (calculate_points (st ! r))) = index (st ! r)"
    using calculate_points_input [of "st ! r"] by auto
  have ixs: "index (fst (calculate_save_percentage (st ! r))) = index (st ! r)"
    using calculate_save_percentage_input [of "st ! r"] by auto
  have cp: "map_of (columns (fst (calculate_points (st ! r)))) c = map_of (columns (st ! r)) c"
    if "c \<noteq> ''Points''" for c
    using calculate_points_input [of "st ! r"] that by (auto simp: map_of_setitem)
  have cs: "map_of (columns (fst (calculate_save_percentage (st ! r)))) c =
              map_of (columns (st ! r)) c"
    if "c \<noteq> ''SavePercentage''" for c
    using calculate_save_percentage_input [of "st ! r"] that by (auto simp: map_of_setitem)
  have others: "fst (calculate_points_on st r) ! r' = st ! r'
      \<and> fst (calculate_save_percentage_on st r) ! r' = st ! r'"
    if "r' < length st" and "r' \<noteq> r" for r'
    using calculate_points_on_writes(2) [OF assms that]
      calculate_save_percentage_on_writes(2) [OF assms that] by simp
  show ?thesis
    unfolding p s
    using filter_skaters_by_position_on_reads [of st r position]
      top_players_by_points_on_reads [of st r n]
      calculate_points_on_writes(3) [OF assms]
      calculate_save_percentage_on_writes(3) [OF assms]
      ap as ixp ixs cp cs others
    by (intro conjI allI impI) blast+
qed

theorem calls_and_their_argument_witness:
  "take 2 (fst (filter_skaters_by_position_on [forwards_AB, forwards_BA] 0 ''Forward''))
     = [forwards_AB, forwards_BA]
   \<and> snd (filter_skaters_by_position_on [forwards_AB, forwards_BA] 0 ''Forward'') = Inr 2
   \<and> filter_skaters_by_position forwards_AB ''Forward'' =
       Inr (fst (filter_skaters_by_position_on [forwards_AB, forwards_BA] 0 ''Forward'') ! 2)
   \<and> take 2 (fst (top_players_by_points_on [forwards_AB, forwards_BA] 0 5))
     = [forwards_AB, forwards_BA]
   \<and> fst (calculate_points_on [forwards_AB, forwards_BA] 0) ! 0 =
       setitem forwards_AB ''Points'' (Int64 [8, 8])
   \<and> snd (calculate_points_on [forwards_AB, forwards_BA] 0) = Inr 2
   \<and> snd (calculate_points forwards_AB) =
       Inr (fst (calculate_points_on [forwards_AB, forwards_BA] 0) ! 2)
   \<and> fst (calculate_points_on [forwards_AB, forwards_BA] 0) ! 1 = forwards_BA
   \<and> index (fst (calculate_points_on [forwards_AB, forwards_BA] 0) ! 0) = index forwards_AB
   \<and> map_of (columns (fst (calculate_points_on [forwards_AB, forwards_BA] 0) ! 0)) ''Team'' =
       map_of (columns forwards_AB) ''Team''"
proof -
  let ?st = "[forwards_AB, forwards_BA]"
  have r: "(0::nat) < length ?st" by simp
  have c: "map_of (columns (?st ! 0)) ''G'' = Some (Int64 [5, 5])
      \<and> map_of (columns (?st ! 0)) ''A'' = Some (Int64 [3, 3])
      \<and> series_add (Int64 [5, 5]) (Int64 [3, 3]) = Inr (Int64 [8, 8])"
    by (simp add: forwards_AB_def)
  have t: "''Team'' \<noteq> ''Points''" by simp
  have fr: "snd (filter_skaters_by_position_on ?st 0 ''Forward'') = Inr 2"
    by (simp add: filter_skaters_by_position_on_def new_frame_def getitem_def forwards_AB_def)
  have pr: "snd (calculate_points_on ?st 0) = Inr 2"
    by (simp add: calculate_points_on_def df_setitem_def new_frame_def getitem_def setitem_def
        getitem_list_def forwards_AB_def)
  have o: "(1::nat) < length ?st" "(1::nat) \<noteq> 0" by simp_all
  note all = calls_and_their_argument [OF r, of "''Forward''" 5]
  have 1: "take (length ?st) (fst (filter_skaters_by_position_on ?st 0 ''Forward'')) = ?st"
    by (rule all [THEN conjunct1])
  have 2: "length ?st \<le> 2 \<and> filter_skaters_by_position (?st ! 0) ''Forward'' =
      Inr (fst (filter_skaters_by_position_on ?st 0 ''Forward'') ! 2)"
    by (rule all [THEN conjunct2, THEN conjunct1, rule_format, OF fr])
  have 3: "take (length ?st) (fst (top_players_by_points_on ?st 0 5)) = ?st"
    by (rule all [THEN conjunct2, THEN conjunct2, THEN conjunct1])
  have 4: "fst (calculate_points_on ?st 0) ! 0 = setitem (?st ! 0) ''Points'' (Int64 [8, 8])"
    by (rule all [THEN conjunct2, THEN conjunct2, THEN conjunct2, THEN conjunct2, THEN conjunct1, rule_format, OF c])
  have 5: "length ?st \<le> 2 \<and> snd (calculate_points (?st ! 0)) =
      Inr (fst (calculate_points_on ?st 0) ! 2)"
    by (rule all [THEN conjunct2, THEN conjunct2, THEN conjunct2, THEN conjunct2, THEN conjunct2, THEN conjunct2, THEN conjunct1, rule_format, OF pr])
  have 6: "fst (calculate_points_on ?st 0) ! 1 = ?st ! 1
      \<and> fst (calculate_save_percentage_on ?st 0) ! 1 = ?st ! 1"
    by (rule all [THEN conjunct2, THEN conjunct2, THEN conjunct2, THEN conjunct2, THEN conjunct2, THEN conjunct2, THEN conjunct2, THEN conjunct2, THEN conjunct1, rule_format, OF o])
  have 7: "index (fst (calculate_points_on ?st 0) ! 0) = index (?st ! 0)"
    by (rule all [THEN conjunct2, THEN conjunct2, THEN conjunct2, THEN conjunct2, THEN conjunct2, THEN conjunct2, THEN conjunct2, THEN conjunct2, THEN conjunct2, THEN conjunct1])
  have 8: "map_of (columns (fst (calculate_points_on ?st 0) ! 0)) ''Team'' =
      map_of (columns (?st ! 0)) ''Team''"
    by (rule all [THEN conjunct2, THEN conjunct2, THEN conjunct2, THEN conjunct2, THEN conjunct2, THEN conjunct2, THEN conjunct2, THEN conjunct2, THEN conjunct2, THEN conjunct2, THEN conjunct2, THEN conjunct1, rule_format, OF t])
  have a: "take 2 (fst (filter_skaters_by_position_on ?st 0 ''Forward'')) = ?st"
    using 1 by (simp add: numeral_2_eq_2)
  have b: "filter_skaters_by_position forwards_AB ''Forward'' =
      Inr (fst (filter_skaters_by_position_on ?st 0 ''Forward'') ! 2)"
    using 2 by simp
  have c': "take 2 (fst (top_players_by_points_on ?st 0 5)) = ?st"
    using 3 by (simp add: numeral_2_eq_2)
  have d: "fst (calculate_points_on ?st 0) ! 0 = setitem forwards_AB ''Points'' (Int64 [8, 8])"
    using 4 by simp
  have e: "snd (calculate_points forwards_AB) = Inr (fst (calculate_points_on ?st 0) ! 2)"
    using 5 by simp
  have f: "fst (calculate_points_on ?st 0) ! 1 = forwards_BA"
    using 6 by simp
  have g: "index (fst (calculate_points_on ?st 0) ! 0) = index forwards_AB"
    using 7 by simp
  have h: "map_of (columns (fst (calculate_points_on ?st 0) ! 0)) ''Team'' =
      map_of (columns forwards_AB) ''Team''"
    using 8 by simp
  show ?thesis
    by (intro conjI) (fact a fr b c' d pr e f g h)+
qed

text \<open>
  C7 as stated fails for the two \<^verbatim>\<open>calculate_\<close> functions: after \<^verbatim>\<open>calculate_points\<close> the
  caller's frame has a \<^verbatim>\<open>Points\<close> column it did not have before.
\<close>

theorem calculate_points_mutates_counterexample:
  "fst (calculate_points_on [forwards_AB] 0) ! 0 =
     \<lparr>index = [0, 1],
      columns = [(''Player Name'', Object [''A'', ''B'']), (''Team'', Object [''BOS'', ''WSH'']),
                 (''Pos'', Object [''Forward'', ''Forward'']),
                 (''G'', Int64 [5, 5]), (''A'', Int64 [3, 3]), (''PIM'', Int64 [10, 2]),
                 (''Points'', Int64 [8, 8])]\<rparr>
   \<and> map_of (columns forwards_AB) ''Points'' = None"
  by (simp add: calculate_points_on_def df_setitem_def new_frame_def forwards_AB_def getitem_def
      setitem_def getitem_list_def)

text \<open>
  C8, at the specification's two forwards: the frame \<^verbatim>\<open>calculate_points\<close> returns has the
  columns \<^verbatim>\<open>Player Name\<close> and \<^verbatim>\<open>Points\<close> only; team, position, goals, assists and penalty
  minutes are not in it. Likewise \<^verbatim>\<open>calculate_save_percentage\<close> returns \<^verbatim>\<open>Player Name\<close> and
  \<^verbatim>\<open>SavePercentage\<close> only.
\<close>

theorem calculate_points_drops_fields:
  "snd (calculate_points forwards_AB) =
     Inr \<lparr>index = [0, 1],
          columns = [(''Player Name'', Object [''A'', ''B'']), (''Points'', Int64 [8, 8])]\<rparr>
   \<and> (case snd (calculate_save_percentage goalies_AB) of
         Inl e \<Rightarrow> [] | Inr out \<Rightarrow> map fst (columns out)) = [''Player Name'', ''SavePercentage'']"
proof -
  have "snd (calculate_points forwards_AB) =
     Inr \<lparr>index = [0, 1],
          columns = [(''Player Name'', Object [''A'', ''B'']), (''Points'', Int64 [8, 8])]\<rparr>"
    by (simp add: calculate_points_def forwards_AB_def getitem_def setitem_def
        getitem_list_def)
  moreover have "snd (calculate_save_percentage goalies_AB) =
     Inr \<lparr>index = [0, 1],
          columns = [(''Player Name'', Object [''A'', ''B'']),
                     (''SavePercentage'', Float64 (save_pct [27, 5] [30, 0]))]\<rparr>"
    by (subst calculate_save_percentage_int [of _ "[27, 5]" "[30, 0]" "Object [''A'', ''B'']"])
       (simp_all add: goalies_AB_def)
  ultimately show ?thesis by simp
qed

section \<open>The order of a ranking\<close>

lemma set_present_idx:
  "set (present_idx isna items) = {i. i < length items \<and> \<not> isna (items ! i)}"
  by (auto simp: present_idx_def)

lemma set_missing_idx:
  "set (missing_idx isna items) = {i. i < length items \<and> isna (items ! i)}"
  by (auto simp: missing_idx_def)

lemma set_ranked_idx:
  "set (ranked_idx isna key items) = {i. i < length items \<and> \<not> isna (items ! i)}"
  using arg_cong [OF mset_ranked_idx [of isna key items], of set_mset]
  by (simp add: set_present_idx)

text \<open>Positions that hold no value come after all that hold one.\<close>

lemma nargsort_desc_missing_last:
  assumes "a < b" and "b < length items"
    and "isna (items ! (nargsort_desc isna key items ! a))"
  shows "isna (items ! (nargsort_desc isna key items ! b))"
proof -
  let ?r = "ranked_idx isna key items" and ?m = "missing_idx isna items"
  have len: "length (?r @ ?m) = length items"
    using length_nargsort_desc [of isna key items] by (simp only: nargsort_desc_split)
  have "\<not> a < length ?r"
  proof
    assume "a < length ?r"
    then have "(?r @ ?m) ! a \<in> set ?r" by (simp add: nth_append)
    then show False using assms(3) by (simp add: nargsort_desc_split set_ranked_idx)
  qed
  then have "\<not> b < length ?r" using assms(1) by simp
  moreover have "b < length (?r @ ?m)" using assms(2) len by simp
  ultimately have "(?r @ ?m) ! b \<in> set ?m" by (simp add: nth_append)
  then show ?thesis by (simp add: nargsort_desc_split set_missing_idx)
qed







section \<open>Ties\<close>




section \<open>Goalies and the snapshot\<close>

lemma getattr_Player:
  "getattr (Player name team position goals penalty_minutes) a =
     (if a = ''name'' then Inr name
      else if a = ''team'' then Inr team
      else if a = ''position'' then Inr position
      else if a = ''goals'' then Inr goals
      else if a = ''penalty_minutes'' then Inr penalty_minutes
      else Inl (AttributeError a))"
  by (simp add: Player_def Player_init_def setattr_def getattr_def)

lemma getattr_Goalie:
  "getattr (Goalie name country saves goals_allowed) a =
     (if a = ''name'' then Inr name
      else if a = ''team'' then Inr country
      else if a = ''position'' then Inr (PyStr ''Goalie'')
      else if a = ''goals'' then Inr (PyInt 0)
      else if a = ''penalty_minutes'' then Inr (PyInt 0)
      else if a = ''saves'' then Inr saves
      else if a = ''goals_allowed'' then Inr goals_allowed
      else Inl (AttributeError a))"
  by (simp add: Goalie_def Goalie_init_def Player_init_def setattr_def getattr_def)

lemma getattr_setattr:
  "getattr (setattr obj a v) b = (if b = a then Inr v else getattr obj b)"
  by (simp add: getattr_def setattr_def update_conv')

text \<open>
  C9, at the repository's own \<^verbatim>\<open>Player\<close>: \<^verbatim>\<open>create_database\<close> reads \<^verbatim>\<open>player.country\<close>,
  which no \<^verbatim>\<open>Player\<close> has (the constructor stores its second argument as \<^verbatim>\<open>team\<close>). The
  call creates the table and then raises \<^verbatim>\<open>AttributeError\<close> at the first player: no
  \<^verbatim>\<open>INSERT\<close> is executed, nothing is committed, the connection is not closed.
\<close>

theorem create_database_player_raises:
  "create_database (Player name team position goals penalty_minutes # players) =
     ([Connect ''nhl_players.db'', Execute create_table_sql []],
      Inl (AttributeError ''country''))"
  by (simp add: create_database_def row_params_def getattr_Player)

lemma rows_written_append [simp]:
  "rows_written (xs @ ys) = rows_written xs @ rows_written ys"
  by (induction xs rule: rows_written.induct) simp_all

lemma rows_written_inserts [simp]:
  "rows_written (map (Execute insert_sql) rows) = rows"
  by (induction rows) simp_all

lemma insert_players_calls:
  "fst (insert_players players calls) = calls @ map (Execute insert_sql) (rows_of players)"
  by (induction players arbitrary: calls) (simp_all split: sum.splits)

lemma insert_players_result:
  "snd (insert_players players calls) = Inr () \<longleftrightarrow> length (rows_of players) = length players"
proof (induction players arbitrary: calls)
  case Nil
  show ?case by simp
next
  case (Cons player players)
  show ?case
  proof (cases "row_params player")
    case (Inl e)
    then show ?thesis by simp
  next
    case (Inr params)
    then show ?thesis using Cons.IH by simp
  qed
qed

lemma length_rows_of: "length (rows_of players) \<le> length players"
  by (induction players) (simp_all split: sum.splits)

lemma rows_of_nth:
  "i < length (rows_of players) \<Longrightarrow> row_params (players ! i) = Inr (rows_of players ! i)"
proof (induction players arbitrary: i)
  case Nil
  then show ?case by simp
next
  case (Cons player players)
  then show ?case
    by (cases "row_params player"; cases i) simp_all
qed

lemma rows_of_stop:
  "i < length players \<Longrightarrow> row_params (players ! i) = Inl e \<Longrightarrow> length (rows_of players) \<le> i"
proof (induction players arbitrary: i)
  case Nil
  then show ?case by simp
next
  case (Cons player players)
  then show ?case
    by (cases "row_params player"; cases i) simp_all
qed

lemma rows_written_create_database:
  "rows_written (fst (create_database players)) = rows_of players"
proof -
  have "create_table_sql \<noteq> insert_sql"
    by (simp add: create_table_sql_def insert_sql_def)
  then show ?thesis
    using insert_players_calls [of players "[Connect ''nhl_players.db'', Execute create_table_sql []]"]
    by (cases "insert_players players [Connect ''nhl_players.db'', Execute create_table_sql []]")
       (auto simp: create_database_def split: sum.splits)
qed

lemma create_database_ok:
  "snd (create_database players) = Inr () \<longleftrightarrow> length (rows_of players) = length players"
  using insert_players_result [of players "[Connect ''nhl_players.db'', Execute create_table_sql []]"]
  by (cases "insert_players players [Connect ''nhl_players.db'', Execute create_table_sql []]")
     (auto simp: create_database_def split: sum.splits)

lemma row_params_attributes:
  assumes "row_params player = Inr params"
  shows "map Inr params =
     map (getattr player) [''name'', ''country'', ''position'', ''goals'', ''penalty_minutes'']"
  using assms by (auto simp: row_params_def split: sum.splits)

lemma row_params_Goalie:
  "row_params (Goalie name country saves goals_allowed) = Inl (AttributeError ''country'')"
  by (simp add: row_params_def getattr_Goalie)

text \<open>
  C10. A \<^verbatim>\<open>Goalie\<close> has position \<^verbatim>\<open>"Goalie"\<close>, 0 goals and 0 penalty minutes whatever
  \<^verbatim>\<open>saves\<close> and \<^verbatim>\<open>goals_allowed\<close> are. For any list of players, each row
  \<^verbatim>\<open>create_database\<close> writes is the name, country, position, goals and penalty minutes of
  the player at that place of the list and nothing else; so a row written for a player
  that has a goalie's position, goals and penalty minutes records \<^verbatim>\<open>"Goalie"\<close>, 0 and 0,
  and its saves and goals allowed do not reach it. For a \<^verbatim>\<open>Goalie\<close> as the constructor
  leaves it no row is written at all: it has no \<^verbatim>\<open>country\<close>, the call raises and the
  rows stop before it.
\<close>

theorem goalie_fixed_fields:
  "getattr (Goalie name country saves goals_allowed) ''position'' = Inr (PyStr ''Goalie'')
   \<and> getattr (Goalie name country saves goals_allowed) ''goals'' = Inr (PyInt 0)
   \<and> getattr (Goalie name country saves goals_allowed) ''penalty_minutes'' = Inr (PyInt 0)
   \<and> (\<forall>i < length (rows_written (fst (create_database players))).
          i < length players
          \<and> map Inr (rows_written (fst (create_database players)) ! i) =
              map (getattr (players ! i))
                [''name'', ''country'', ''position'', ''goals'', ''penalty_minutes''])
   \<and> (\<forall>i < length (rows_written (fst (create_database players))).
          getattr (players ! i) ''position'' =
            getattr (Goalie name country saves goals_allowed) ''position''
          \<and> getattr (players ! i) ''goals'' =
            getattr (Goalie name country saves goals_allowed) ''goals''
          \<and> getattr (players ! i) ''penalty_minutes'' =
            getattr (Goalie name country saves goals_allowed) ''penalty_minutes''
          \<longrightarrow> length (rows_written (fst (create_database players)) ! i) = 5
              \<and> rows_written (fst (create_database players)) ! i ! 2 = PyStr ''Goalie''
              \<and> rows_written (fst (create_database players)) ! i ! 3 = PyInt 0
              \<and> rows_written (fst (create_database players)) ! i ! 4 = PyInt 0)
   \<and> (\<forall>i < length players. players ! i = Goalie name country saves goals_allowed \<longrightarrow>
          length (rows_written (fst (create_database players))) \<le> i
          \<and> isl (snd (create_database players)))"
proof -
  let ?rows = "rows_written (fst (create_database players))"
  have rows: "?rows = rows_of players" by (rule rows_written_create_database)
  have attrs: "map Inr (?rows ! i) =
      map (getattr (players ! i)) [''name'', ''country'', ''position'', ''goals'', ''penalty_minutes'']"
    if "i < length ?rows" for i
    using that unfolding rows by (intro row_params_attributes rows_of_nth)
  have inlist: "i < length players" if "i < length ?rows" for i
    using that length_rows_of [of players] unfolding rows by simp
  have goalie: "length (?rows ! i) = 5 \<and> ?rows ! i ! 2 = PyStr ''Goalie''
      \<and> ?rows ! i ! 3 = PyInt 0 \<and> ?rows ! i ! 4 = PyInt 0"
    if "i < length ?rows"
      and "getattr (players ! i) ''position'' =
             getattr (Goalie name country saves goals_allowed) ''position''
         \<and> getattr (players ! i) ''goals'' =
             getattr (Goalie name country saves goals_allowed) ''goals''
         \<and> getattr (players ! i) ''penalty_minutes'' =
             getattr (Goalie name country saves goals_allowed) ''penalty_minutes''" for i
  proof -
    have len: "length (map (Inr :: pyval \<Rightarrow> error + pyval) (?rows ! i)) = 5"
      unfolding attrs [OF that(1)] by simp
    then have l5: "length (?rows ! i) = 5" by simp
    have nth: "(Inr (?rows ! i ! k) :: error + pyval) =
        map (getattr (players ! i))
          [''name'', ''country'', ''position'', ''goals'', ''penalty_minutes''] ! k"
      if "k < 5" for k
      using that l5 arg_cong [OF attrs [OF \<open>i < length ?rows\<close>], of "\<lambda>xs. xs ! k"] by simp
    have "(Inr (?rows ! i ! 2) :: error + pyval) = Inr (PyStr ''Goalie'')"
      "(Inr (?rows ! i ! 3) :: error + pyval) = Inr (PyInt 0)"
      "(Inr (?rows ! i ! 4) :: error + pyval) = Inr (PyInt 0)"
      using nth [of 2] nth [of 3] nth [of 4] that(2) by (simp_all add: getattr_Goalie)
    with l5 show ?thesis by simp
  qed
  have stop: "length ?rows \<le> i \<and> isl (snd (create_database players))"
    if "i < length players" and "players ! i = Goalie name country saves goals_allowed" for i
  proof -
    have "row_params (players ! i) = Inl (AttributeError ''country'')"
      unfolding that(2) by (rule row_params_Goalie)
    with that(1) have le: "length (rows_of players) \<le> i" by (rule rows_of_stop)
    then have "length (rows_of players) \<noteq> length players" using that(1) by simp
    then have "snd (create_database players) \<noteq> Inr ()" by (simp add: create_database_ok)
    then have "isl (snd (create_database players))"
      by (cases "snd (create_database players)") simp_all
    with le show ?thesis unfolding rows by simp
  qed
  show ?thesis
    using attrs inlist goalie stop by (simp add: getattr_Goalie)
qed

theorem goalie_fixed_fields_witness:
  "rows_written (fst (create_database snapshot_goalies)) =
     [[PyStr ''G1'', PyStr ''CAN'', PyStr ''Goalie'', PyInt 0, PyInt 0]]
   \<and> rows_written (fst (create_database snapshot_goalies)) ! 0 ! 3 = PyInt 0
   \<and> rows_written (fst (create_database snapshot_goalies)) ! 0 ! 4 = PyInt 0
   \<and> length (rows_written (fst (create_database snapshot_goalies))) \<le> 1
   \<and> isl (snd (create_database snapshot_goalies))"
proof -
  let ?rows = "rows_written (fst (create_database snapshot_goalies))"
  have rows: "?rows = [[PyStr ''G1'', PyStr ''CAN'', PyStr ''Goalie'', PyInt 0, PyInt 0]]"
    by (simp add: rows_written_create_database snapshot_goalies_def row_params_def
        getattr_setattr getattr_Goalie)
  have i0: "0 < length ?rows" unfolding rows by simp
  have agree: "getattr (snapshot_goalies ! 0) ''position'' =
        getattr (Goalie (PyStr ''G1'') (PyStr ''CAN'') (PyInt 30) (PyInt 2)) ''position''
      \<and> getattr (snapshot_goalies ! 0) ''goals'' =
        getattr (Goalie (PyStr ''G1'') (PyStr ''CAN'') (PyInt 30) (PyInt 2)) ''goals''
      \<and> getattr (snapshot_goalies ! 0) ''penalty_minutes'' =
        getattr (Goalie (PyStr ''G1'') (PyStr ''CAN'') (PyInt 30) (PyInt 2)) ''penalty_minutes''"
    by (simp add: snapshot_goalies_def getattr_setattr)
  have i1: "1 < length snapshot_goalies"
    and g2: "snapshot_goalies ! 1 = Goalie (PyStr ''G2'') (PyStr ''USA'') (PyInt 25) (PyInt 3)"
    by (simp_all add: snapshot_goalies_def)
  note first = goalie_fixed_fields [of "PyStr ''G1''" "PyStr ''CAN''" "PyInt 30" "PyInt 2"
      snapshot_goalies, THEN conjunct2, THEN conjunct2, THEN conjunct2, THEN conjunct2,
      THEN conjunct1, rule_format, OF i0 agree]
  note second = goalie_fixed_fields [of "PyStr ''G2''" "PyStr ''USA''" "PyInt 25" "PyInt 3"
      snapshot_goalies, THEN conjunct2, THEN conjunct2, THEN conjunct2, THEN conjunct2,
      THEN conjunct2, rule_format, OF i1 g2]
  from rows first second show ?thesis by simp
qed

section \<open>Goalies without shots in a ranking\<close>

lemma save_pct_nan_iff:
  assumes "p < length svs" and "p < length sas"
  shows "is_nan (save_pct svs sas ! p) \<longleftrightarrow> sas ! p = 0 \<and> svs ! p = 0"
proof (cases "sas ! p = 0")
  case True
  then show ?thesis
    using assms by (simp add: save_pct_nth f64_div_by_zero)
next
  case False
  then show ?thesis
    using assms f64_div_by_nonzero(1) [OF False, of "svs ! p"] by (simp add: save_pct_nth)
qed

lemma map_of_ranking:
  "map_of (columns (head (take_rows df perm) n)) c =
     map_option (\<lambda>s. series_map (take (slice_stop (length perm) n))
                        (take (slice_stop (length perm) n)) (take (slice_stop (length perm) n))
                        (series_map (take_pos perm) (take_pos perm) (take_pos perm) s))
       (map_of (columns df) c)"
proof -
  let ?k = "slice_stop (length perm) n"
  have "map_of (columns (head (take_rows df perm) n)) c =
      map_option (series_map (take ?k) (take ?k) (take ?k))
        (map_of (columns (take_rows df perm)) c)"
    unfolding columns_head by (simp add: map_of_columns_map)
  also have "map_of (columns (take_rows df perm)) c =
      map_option (series_map (take_pos perm) (take_pos perm) (take_pos perm))
        (map_of (columns df) c)"
    unfolding columns_take_rows by (rule map_of_columns_map)
  finally show ?thesis
    by (simp add: option.map_comp comp_def)
qed

lemma nth_take_pos [simp]: "i < length perm \<Longrightarrow> take_pos perm xs ! i = xs ! (perm ! i)"
  by (simp add: take_pos_def)

text \<open>
  C4, as the code has it. On the frame \<^verbatim>\<open>calculate_save_percentage\<close> has filled,
  \<^verbatim>\<open>top_goalies_by_save_percentage\<close> returns a ranking in which a goalie with neither shots
  nor saves (whose save percentage is NaN) is followed by such goalies only: none of them
  stands before a goalie with any other value. With \<open>n\<close> at least the number of rows
  every row of the input is in the result.
\<close>

theorem goalies_without_value_last:
  assumes "wf_frame df"
    and "map_of (columns df) ''SV'' = Some (Int64 svs)"
    and "map_of (columns df) ''SA'' = Some (Int64 sas)"
    and "map_of (columns df) ''Player Name'' = Some nm"
  shows "\<exists>out osv osa.
           top_goalies_by_save_percentage (fst (calculate_save_percentage df)) n = Inr out
         \<and> map_of (columns out) ''SV'' = Some (Int64 osv)
         \<and> map_of (columns out) ''SA'' = Some (Int64 osa)
         \<and> length osv = length (index out) \<and> length osa = length (index out)
         \<and> (\<forall>i j. i < j \<and> j < length (index out) \<and> osa ! i = 0 \<and> osv ! i = 0
                \<longrightarrow> osa ! j = 0 \<and> osv ! j = 0)
         \<and> (int (length (index df)) \<le> n \<longrightarrow> mset (index out) = mset (index df))"
proof -
  define N where "N = length (index df)"
  define pct where "pct = save_pct svs sas"
  define df' where "df' = setitem df ''SavePercentage'' (Float64 pct)"
  define perm where "perm = nargsort_desc is_nan f64_key pct"
  define k where "k = slice_stop N n"
  define out where "out = head (take_rows df' perm) n"
  have lv: "length svs = N" and la: "length sas = N"
    using wf_frame_len [OF assms(1) assms(2)] wf_frame_len [OF assms(1) assms(3)]
    by (simp_all add: N_def)
  have lpct: "length pct = N" using lv la by (simp add: pct_def)
  have lperm: "length perm = N" using lpct by (simp add: perm_def)
  have kN: "k \<le> N" unfolding k_def by (rule slice_stop_le)
  have df': "fst (calculate_save_percentage df) = df'"
    by (simp add: calculate_save_percentage_int [OF assms(2-4)] df'_def pct_def)
  have top: "top_goalies_by_save_percentage df' n = Inr out"
    unfolding out_def perm_def
    using top_goalies_by_save_percentage_Some [of df' "Float64 pct" n]
    by (simp add: df'_def map_of_setitem)
  have sv: "map_of (columns out) ''SV'' = Some (Int64 (take k (take_pos perm svs)))"
    and sa: "map_of (columns out) ''SA'' = Some (Int64 (take k (take_pos perm sas)))"
    unfolding out_def map_of_ranking
    using assms(2,3) by (simp_all add: df'_def map_of_setitem lperm k_def)
  have lout: "length (index out) = k"
    unfolding out_def by (simp add: length_index_head lperm df'_def N_def k_def)
  have lens: "length (take k (take_pos perm svs)) = k" "length (take k (take_pos perm sas)) = k"
    using kN lperm by simp_all
  have in_range: "perm ! i < N" if "i < N" for i
  proof -
    have "perm ! i \<in> set perm" using that lperm by (intro nth_mem) simp
    then show ?thesis by (simp add: perm_def set_nargsort_desc lpct)
  qed
  have last: "take k (take_pos perm sas) ! j = 0 \<and> take k (take_pos perm svs) ! j = 0"
    if "i < j" and "j < k"
      and "take k (take_pos perm sas) ! i = 0" and "take k (take_pos perm svs) ! i = 0" for i j
  proof -
    have i: "i < k" "i < N" and j: "j < N" using that(1,2) kN by simp_all
    have "sas ! (perm ! i) = 0" "svs ! (perm ! i) = 0"
      using that(3,4) i lperm by simp_all
    then have nan_i: "is_nan (pct ! (perm ! i))"
      unfolding pct_def using in_range [OF i(2)] lv la by (simp add: save_pct_nan_iff)
    have jl: "j < length pct" using j lpct by simp
    have "is_nan (pct ! (perm ! j))"
      unfolding perm_def
      using that(1) jl nan_i [unfolded perm_def]
      by (rule nargsort_desc_missing_last
          [where isna = is_nan and key = f64_key and items = pct and a = i and b = j])
    then have "sas ! (perm ! j) = 0 \<and> svs ! (perm ! j) = 0"
      unfolding pct_def using in_range [OF j] lv la by (simp add: save_pct_nan_iff)
    then show ?thesis
      using that(2) j lperm by simp
  qed
  have kept: "mset (index out) = mset (index df)" if "int N \<le> n"
  proof -
    have "k = N" using that by (simp add: k_def slice_stop_def)
    then have "index out = take_pos perm (index df)"
      unfolding out_def by (simp add: index_head lperm df'_def N_def k_def)
    moreover have "mset perm = mset [0..<length (index df)]"
      unfolding perm_def using mset_nargsort_desc [of is_nan f64_key pct] lpct
      by (simp add: N_def)
    ultimately show ?thesis by (simp add: mset_take_pos_perm)
  qed
  let ?osv = "take k (take_pos perm svs)" and ?osa = "take k (take_pos perm sas)"
  have "top_goalies_by_save_percentage df' n = Inr out
         \<and> map_of (columns out) ''SV'' = Some (Int64 ?osv)
         \<and> map_of (columns out) ''SA'' = Some (Int64 ?osa)
         \<and> length ?osv = length (index out) \<and> length ?osa = length (index out)
         \<and> (\<forall>i j. i < j \<and> j < length (index out) \<and> ?osa ! i = 0 \<and> ?osv ! i = 0
                \<longrightarrow> ?osa ! j = 0 \<and> ?osv ! j = 0)
         \<and> (int (length (index df)) \<le> n \<longrightarrow> mset (index out) = mset (index df))"
    using top sv sa lens last kept unfolding lout N_def [symmetric] by blast
  then show ?thesis
    unfolding df' by blast
qed

theorem goalies_without_value_last_witness:
  "\<exists>out osv osa.
      top_goalies_by_save_percentage (fst (calculate_save_percentage goalies4)) 4 = Inr out
    \<and> map_of (columns out) ''SV'' = Some (Int64 osv)
    \<and> map_of (columns out) ''SA'' = Some (Int64 osa)
    \<and> length osv = length (index out) \<and> length osa = length (index out)
    \<and> (\<forall>i j. i < j \<and> j < length (index out) \<and> osa ! i = 0 \<and> osv ! i = 0
           \<longrightarrow> osa ! j = 0 \<and> osv ! j = 0)
    \<and> mset (index out) = mset [0, 1, 2, 3]"
proof -
  have wf: "wf_frame goalies4"
    by (simp add: wf_frame_def goalies4_def)
  have c: "map_of (columns goalies4) ''SV'' = Some (Int64 [27, 5, 0, 30])"
    "map_of (columns goalies4) ''SA'' = Some (Int64 [30, 0, 0, 30])"
    "map_of (columns goalies4) ''Player Name'' = Some (Object [''A'', ''B'', ''C'', ''D''])"
    by (simp_all add: goalies4_def)
  have i: "index goalies4 = [0, 1, 2, 3]" by (simp add: goalies4_def)
  show ?thesis
    using goalies_without_value_last [OF wf c, of 4] unfolding i by simp
qed

text \<open>
  C4 as stated fails: goalie B, with 5 saves entered against no shots, has an infinite
  save percentage and is ranked first, before goalie A with 27 saves on 30 shots.
\<close>

theorem goalie_without_shots_first_counterexample:
  "(case top_goalies_by_save_percentage (fst (calculate_save_percentage goalies_AB)) 2 of
      Inl e \<Rightarrow> None
    | Inr out \<Rightarrow> Some (index out, map_of (columns out) ''Player Name'',
                       map_of (columns out) ''SV'', map_of (columns out) ''SA''))
   = Some ([1, 0], Some (Object [''B'', ''A'']), Some (Int64 [5, 27]), Some (Int64 [0, 30]))"
proof -
  define x where "x = f64_div (f64_of_i64 27) (f64_of_i64 30)"
  have pct: "save_pct [27, 5] [30, 0] = [x, PInf]"
    using f64_div_by_zero [of 5] by (simp add: save_pct_def x_def)
  have df: "fst (calculate_save_percentage goalies_AB) =
      setitem goalies_AB ''SavePercentage'' (Float64 [x, PInf])"
    by (subst calculate_save_percentage_int [of _ "[27, 5]" "[30, 0]" "Object [''A'', ''B'']"])
       (simp_all add: goalies_AB_def pct)
  have "\<not> is_nan x" "\<not> is_inf x"
    unfolding x_def by (rule f64_div_by_nonzero; simp)+
  then have x: "\<not> is_nan x" "fst (f64_key x) = 0"
    by (cases x; simp)+
  have key: "\<not> f64_key PInf \<le> f64_key x"
    using x(2) by (cases "f64_key x") (simp add: less_eq_prod_def)
  have up: "[0..<2] = [0, 1]" by (simp add: upt_rec)
  have perm: "nargsort_desc is_nan f64_key [x, PInf] = [1, 0]"
    using x(1) key by (simp add: nargsort_desc_def argsort_def take_pos_def Let_def up)
  show ?thesis
    unfolding df
    by (simp add: top_goalies_by_save_percentage_def sort_values_desc_def getitem_def
        setitem_def goalies_AB_def perm take_rows_def head_def slice_stop_def take_pos_def)
qed

end
